theory Spec2Isabelle
  imports Complex_Main "HOL-Library.Log_Nat"
begin

section \<open>JavaScript numbers\<close>

text \<open>
  Every \<^verbatim>\<open>number\<close> of \<^verbatim>\<open>src/App.tsx\<close> is an IEEE-754 binary64 value. A finite double
  is modelled by the real number it denotes, and every arithmetic operator of the source
  by the exact operation followed by \<open>fround\<close>, rounding to the nearest double with ties
  to the even significand. Comparisons, \<^verbatim>\<open>Math.min\<close>, \<^verbatim>\<open>Math.max\<close> and \<^verbatim>\<open>Math.floor\<close> are
  exact on doubles. \<open>NaN\<close> and the infinities are not modelled: \<open>fround\<close> agrees with
  binary64 for results below the overflow threshold, which is far above every quantity of
  the game (coordinates below \<open>2 ^ 10\<close>, the clock below \<open>2 ^ 53\<close>).
\<close>

definition pow2 :: "int \<Rightarrow> real" where
  "pow2 e = (if 0 \<le> e then 2 ^ nat e else 1 / 2 ^ nat (- e))"

text \<open>Rounding a real to the nearest integer, a tie going to the even neighbour.\<close>

definition round_half_even :: "real \<Rightarrow> int" where
  "round_half_even r =
     (let f = \<lfloor>r\<rfloor>
      in if 2 * r < 2 * of_int f + 1 then f
         else if 2 * of_int f + 1 < 2 * r then f + 1
         else if even f then f else f + 1)"

text \<open>The binary exponent of a positive real \<open>a\<close>: the \<open>e\<close> with \<open>2^e \<le> a < 2^(e+1)\<close>.\<close>

definition ilog2 :: "real \<Rightarrow> int" where
  "ilog2 a = (if 1 \<le> a then bitlen \<lfloor>a\<rfloor> - 1 else - bitlen (\<lceil>1 / a\<rceil> - 1))"

text \<open>
  Rounding to binary64: 53 significant bits, the unit in the last place never below
  \<open>2^-1074\<close> (subnormal numbers).
\<close>

definition fround :: "real \<Rightarrow> real" where
  "fround q =
     (if q = 0 then 0
      else let p = max (ilog2 \<bar>q\<bar> - 52) (- 1074)
           in of_int (round_half_even (q / pow2 p)) * pow2 p)"

definition fadd :: "real \<Rightarrow> real \<Rightarrow> real" where
  "fadd a b = fround (a + b)"

definition fsub :: "real \<Rightarrow> real \<Rightarrow> real" where
  "fsub a b = fround (a - b)"

definition fmul :: "real \<Rightarrow> real \<Rightarrow> real" where
  "fmul a b = fround (a * b)"

definition fdiv :: "real \<Rightarrow> real \<Rightarrow> real" where
  "fdiv a b = fround (a / b)"

section \<open>Data model\<close>

text \<open>
  The interfaces \<^verbatim>\<open>Player\<close> and \<^verbatim>\<open>Obstacle\<close> both start with the fields
  \<^verbatim>\<open>x, y, width, height\<close>; the records share them through \<open>Box\<close>.
\<close>

record Box =
  x :: real
  y :: real
  width :: real
  height :: real

record Player = Box +
  velocityY :: real
  isJumping :: bool
  onGround :: bool
  animFrame :: real

datatype obstacle_type = cactus | rock | spike | tree | crystal | mushroom

record Obstacle = Box +
  type :: obstacle_type

record GameState =
  isPlaying :: bool
  isGameOver :: bool
  score :: real
  speed :: real

text \<open>
  The state of the component: the three \<^verbatim>\<open>useState\<close> cells and the three \<^verbatim>\<open>useRef\<close>
  cells that the simulation reads and writes. Each command, tick and effect is a function
  on this state: the updaters it queues are applied to it at once. Sound and drawing read
  the state and do not write it; they are left out.
\<close>

record App =
  gameState :: GameState
  player :: Player
  obstacles :: "Obstacle list"
  lastObstacleRef :: real
  groundOffsetRef :: real
  animationFrameRef :: real

text \<open>
  What one run of \<^verbatim>\<open>gameLoop\<close> reads from outside: \<^verbatim>\<open>Date.now()\<close>, the
  \<^verbatim>\<open>Math.random()\<close> of the spawn interval and the \<^verbatim>\<open>Math.random()\<close> of
  \<^verbatim>\<open>generateObstacle\<close>.
\<close>

record tick_input =
  now :: real
  rndInterval :: real
  rndType :: real

definition CANVAS_WIDTH :: real where "CANVAS_WIDTH = 800"
definition CANVAS_HEIGHT :: real where "CANVAS_HEIGHT = 400"
definition GROUND_HEIGHT :: real where "GROUND_HEIGHT = 80"
definition GRAVITY :: real where "GRAVITY = fround (8 / 10)"
definition JUMP_FORCE :: real where "JUMP_FORCE = - 16"
definition INITIAL_SPEED :: real where "INITIAL_SPEED = 4"
definition SPEED_INCREMENT :: real where "SPEED_INCREMENT = fround (2 / 1000)"

section \<open>Operations\<close>

text \<open>The updater that \<^verbatim>\<open>jump\<close> passes to \<^verbatim>\<open>setPlayer\<close>, and \<^verbatim>\<open>jump\<close> itself.\<close>

definition jump_setPlayer :: "Player \<Rightarrow> Player" where
  "jump_setPlayer prev =
     (if onGround prev
      then prev\<lparr>velocityY := JUMP_FORCE, isJumping := True, onGround := False\<rparr>
      else prev)"

definition jump :: "App \<Rightarrow> App" where
  "jump a =
     (if \<not> isPlaying (gameState a) \<or> isGameOver (gameState a) then a
      else a\<lparr>player := jump_setPlayer (player a)\<rparr>)"

definition checkCollision :: "Player \<Rightarrow> Obstacle \<Rightarrow> bool" where
  "checkCollision p ob \<longleftrightarrow>
     fadd (x p) 6 < fadd (x ob) (width ob) \<and>
     fsub (fadd (x p) (width p)) 6 > x ob \<and>
     fadd (y p) 6 < fadd (y ob) (height ob) \<and>
     fadd (y p) (height p) > y ob"

text \<open>The table \<^verbatim>\<open>types\<close> of \<^verbatim>\<open>generateObstacle\<close>: type, width, height.\<close>

definition types :: "(obstacle_type \<times> real \<times> real) list" where
  "types = [(cactus, 24, 48), (rock, 24, 24), (spike, 32, 16),
            (tree, 24, 56), (crystal, 24, 40), (mushroom, 24, 32)]"

text \<open>
  Indexing an array: outside the range JavaScript yields \<^verbatim>\<open>undefined\<close>, and reading a
  property of it throws; \<open>None\<close> stands for that.
\<close>

definition index :: "'a list \<Rightarrow> int \<Rightarrow> 'a option" where
  "index xs i = (if 0 \<le> i \<and> i < int (length xs) then Some (xs ! nat i) else None)"

definition generateObstacle :: "real \<Rightarrow> Obstacle option" where
  "generateObstacle rnd =
     (case index types \<lfloor>fmul rnd (of_nat (length types))\<rfloor> of
        None \<Rightarrow> None
      | Some (t, w, h) \<Rightarrow>
          Some \<lparr>x = CANVAS_WIDTH, y = fsub (fsub CANVAS_HEIGHT GROUND_HEIGHT) h,
                width = w, height = h, type = t\<rparr>)"

text \<open>
  The three updaters of \<^verbatim>\<open>gameLoop\<close>. \<open>frame\<close> is \<^verbatim>\<open>animationFrameRef.current\<close>,
  already incremented; \<open>spd\<close> is \<^verbatim>\<open>gameState.speed\<close>.
\<close>

definition groundY :: "Player \<Rightarrow> real" where
  "groundY p = fsub (fsub CANVAS_HEIGHT GROUND_HEIGHT) (height p)"

definition gameLoop_setPlayer :: "real \<Rightarrow> Player \<Rightarrow> Player" where
  "gameLoop_setPlayer frame prev =
     (let v = fadd (velocityY prev) GRAVITY;
          ny = fadd (y prev) v
      in if groundY prev \<le> ny
         then prev\<lparr>animFrame := frame, velocityY := 0, y := groundY prev,
                   isJumping := False, onGround := True\<rparr>
         else prev\<lparr>animFrame := frame, velocityY := v, y := ny, onGround := False\<rparr>)"

definition moveObstacle :: "real \<Rightarrow> Obstacle \<Rightarrow> Obstacle" where
  "moveObstacle spd ob = ob\<lparr>x := fsub (x ob) spd\<rparr>"

definition onScreen :: "Obstacle \<Rightarrow> bool" where
  "onScreen ob \<longleftrightarrow> 0 < fadd (x ob) (width ob)"

definition speedMultiplier :: "real \<Rightarrow> real" where
  "speedMultiplier spd =
     max (fround (3 / 10)) (fsub 1 (fmul (fsub spd INITIAL_SPEED) (fround (1 / 10))))"

definition interval :: "real \<Rightarrow> real \<Rightarrow> real" where
  "interval spd rnd = fadd (fmul 800 (speedMultiplier spd)) (fmul rnd 400)"

definition spawnDue :: "real \<Rightarrow> real \<Rightarrow> tick_input \<Rightarrow> bool" where
  "spawnDue spd lastT i \<longleftrightarrow> interval spd (rndInterval i) < fsub (now i) lastT"

text \<open>
  The updater of \<^verbatim>\<open>setObstacles\<close> returns the new list and the new value of
  \<^verbatim>\<open>lastObstacleRef.current\<close>, which it writes.
\<close>

definition gameLoop_setObstacles ::
  "real \<Rightarrow> real \<Rightarrow> tick_input \<Rightarrow> Obstacle list \<Rightarrow> (Obstacle list \<times> real) option" where
  "gameLoop_setObstacles spd lastT i prev =
     (let newObstacles = filter onScreen (map (moveObstacle spd) prev)
      in if spawnDue spd lastT i
         then (case generateObstacle (rndType i) of
                 None \<Rightarrow> None
               | Some ob \<Rightarrow> Some (newObstacles @ [ob], now i))
         else Some (newObstacles, lastT))"

definition gameLoop_setGameState :: "GameState \<Rightarrow> GameState" where
  "gameLoop_setGameState prev =
     prev\<lparr>score := fadd (score prev) 1,
          speed := min (fadd (speed prev) SPEED_INCREMENT) 12\<rparr>"

definition gameLoop :: "App \<Rightarrow> tick_input \<Rightarrow> App option" where
  "gameLoop a i =
     (if \<not> isPlaying (gameState a) \<or> isGameOver (gameState a) then Some a
      else
        let spd = speed (gameState a);
            frame = fadd (animationFrameRef a) 1
        in case gameLoop_setObstacles spd (lastObstacleRef a) i (obstacles a) of
             None \<Rightarrow> None
           | Some (obs, lastT) \<Rightarrow>
               Some (a\<lparr>groundOffsetRef := fsub (groundOffsetRef a) spd,
                       animationFrameRef := frame,
                       player := gameLoop_setPlayer frame (player a),
                       obstacles := obs,
                       lastObstacleRef := lastT,
                       gameState := gameLoop_setGameState (gameState a)\<rparr>))"

text \<open>
  The collision effect: the loop over the obstacles stops at the first hit, whose updater
  sets \<^verbatim>\<open>isGameOver\<close>.
\<close>

fun collisionLoop :: "Player \<Rightarrow> Obstacle list \<Rightarrow> GameState \<Rightarrow> GameState" where
  "collisionLoop p [] gs = gs"
| "collisionLoop p (ob # obs) gs =
     (if checkCollision p ob then gs\<lparr>isGameOver := True\<rparr> else collisionLoop p obs gs)"

definition collisionEffect :: "App \<Rightarrow> App" where
  "collisionEffect a =
     (if \<not> isPlaying (gameState a) \<or> isGameOver (gameState a) then a
      else a\<lparr>gameState := collisionLoop (player a) (obstacles a) (gameState a)\<rparr>)"

text \<open>\<^verbatim>\<open>startGame\<close>; \<open>t\<close> is its \<^verbatim>\<open>Date.now()\<close>.\<close>

definition initialPlayer :: Player where
  "initialPlayer =
     \<lparr>x = 80, y = fsub (fsub CANVAS_HEIGHT GROUND_HEIGHT) 40, width = 28, height = 40,
      velocityY = 0, isJumping = False, onGround = True, animFrame = 0\<rparr>"

definition startGame :: "App \<Rightarrow> real \<Rightarrow> App" where
  "startGame a t =
     a\<lparr>gameState := \<lparr>isPlaying = True, isGameOver = False, score = 0, speed = INITIAL_SPEED\<rparr>,
       player := initialPlayer,
       obstacles := [],
       lastObstacleRef := t,
       groundOffsetRef := 0,
       animationFrameRef := 0\<rparr>"

text \<open>
  The overlay that holds the two buttons calling \<^verbatim>\<open>startGame\<close> is rendered under this
  condition only.
\<close>

definition startButtonRendered :: "GameState \<Rightarrow> bool" where
  "startButtonRendered gs \<longleftrightarrow> \<not> isPlaying gs \<or> isGameOver gs"

text \<open>
  The start command as the component exposes it: a click on one of the two buttons, whose
  handler is \<^verbatim>\<open>startGame\<close>. \<^verbatim>\<open>startGame\<close> has no other caller. While the overlay is not
  rendered there is no button, and the state stays as it is.
\<close>

definition startCommand :: "App \<Rightarrow> real \<Rightarrow> App" where
  "startCommand a t = (if startButtonRendered (gameState a) then startGame a t else a)"

text \<open>The score as drawn: \<^verbatim>\<open>Math.floor(gameState.score / 10)\<close>.\<close>

definition displayedScore :: "GameState \<Rightarrow> int" where
  "displayedScore gs = \<lfloor>fdiv (score gs) 10\<rfloor>"

text \<open>The state of the component when it is mounted.\<close>

definition initialApp :: App where
  "initialApp =
     \<lparr>gameState = \<lparr>isPlaying = False, isGameOver = False, score = 0, speed = INITIAL_SPEED\<rparr>,
      player = initialPlayer,
      obstacles = [],
      lastObstacleRef = 0,
      groundOffsetRef = 0,
      animationFrameRef = 0\<rparr>"

text \<open>
  The player's hitbox and the obstacle's box, edge by edge, with the insets as parameters:
  the reading of the collision test as an overlap of a hitbox shrunken on each side.
\<close>

definition hitLeft :: "real \<Rightarrow> Player \<Rightarrow> real" where
  "hitLeft inset p = fadd (x p) inset"

definition hitRight :: "real \<Rightarrow> Player \<Rightarrow> real" where
  "hitRight inset p = fsub (fadd (x p) (width p)) inset"

definition hitTop :: "real \<Rightarrow> Player \<Rightarrow> real" where
  "hitTop inset p = fadd (y p) inset"

definition hitBottom :: "real \<Rightarrow> Player \<Rightarrow> real" where
  "hitBottom inset p = fsub (fadd (y p) (height p)) inset"

definition spriteBottom :: "Player \<Rightarrow> real" where
  "spriteBottom p = fadd (y p) (height p)"

definition obLeft :: "Obstacle \<Rightarrow> real" where
  "obLeft ob = x ob"

definition obRight :: "Obstacle \<Rightarrow> real" where
  "obRight ob = fadd (x ob) (width ob)"

definition obTop :: "Obstacle \<Rightarrow> real" where
  "obTop ob = y ob"

definition obBottom :: "Obstacle \<Rightarrow> real" where
  "obBottom ob = fadd (y ob) (height ob)"

definition insetOverlap :: "real \<Rightarrow> real \<Rightarrow> real \<Rightarrow> real \<Rightarrow> Player \<Rightarrow> Obstacle \<Rightarrow> bool" where
  "insetOverlap il ir it ib p ob \<longleftrightarrow>
     hitLeft il p < obRight ob \<and> hitRight ir p > obLeft ob \<and>
     hitTop it p < obBottom ob \<and> hitBottom ib p > obTop ob"

text \<open>Sample states used to run the definitions.\<close>

definition grazingPlayer :: Player where
  "grazingPlayer = initialPlayer\<lparr>y := 257, velocityY := 4, isJumping := True, onGround := False\<rparr>"

definition grazedRock :: Obstacle where
  "grazedRock = \<lparr>x = 90, y = 296, width = 24, height = 24, type = rock\<rparr>"

definition sampleInput :: tick_input where
  "sampleInput = \<lparr>now = 16, rndInterval = 1 / 2, rndType = 1 / 4\<rparr>"

definition startedApp :: App where
  "startedApp = startGame initialApp 0"

definition rockAhead :: Obstacle where
  "rockAhead = \<lparr>x = 100, y = 296, width = 24, height = 24, type = rock\<rparr>"

definition spikeLeaving :: Obstacle where
  "spikeLeaving = \<lparr>x = - 30, y = 304, width = 32, height = 16, type = spike\<rparr>"

definition crowdedApp :: App where
  "crowdedApp = startedApp\<lparr>obstacles := [spikeLeaving, rockAhead]\<rparr>"

text \<open>The state one tick after the start.\<close>

definition tickedApp :: App where
  "tickedApp = (case gameLoop startedApp sampleInput of Some a \<Rightarrow> a | None \<Rightarrow> startedApp)"

text \<open>
  A sequence of frames: in each, \<^verbatim>\<open>gameLoop\<close> runs on that frame's inputs, and the
  collision effect runs on the state it leaves.
\<close>

fun frames :: "App \<Rightarrow> tick_input list \<Rightarrow> App option" where
  "frames a [] = Some a"
| "frames a (i # is) =
     (case gameLoop a i of None \<Rightarrow> None | Some a' \<Rightarrow> frames (collisionEffect a') is)"

text \<open>
  Two hundred frames driven by hand within the millisecond in which the game was started,
  as a test harness does.
\<close>

definition quietFrames :: "tick_input list" where
  "quietFrames = replicate 200 \<lparr>now = 0, rndInterval = 1 / 2, rndType = 1 / 4\<rparr>"

text \<open>The player at rest on the ground, in the pose every landing restores.\<close>

definition grounded :: "Player \<Rightarrow> bool" where
  "grounded p \<longleftrightarrow> onGround p \<and> velocityY p = 0 \<and> y p = 280 \<and> height p = 40"





text \<open>The exponent of the unit in the last place of the double nearest to \<open>q\<close>.\<close>

definition lsbExp :: "real \<Rightarrow> int" where
  "lsbExp q = max (ilog2 \<bar>q\<bar> - 52) (- 1074)"
text \<open>
  The states the component can be in: the mounted one, and those that the commands, the
  ticks and the collision effect lead to, on any inputs.
\<close>

inductive reachable :: "App \<Rightarrow> bool" where
  mounted: "reachable initialApp"
| started: "reachable a \<Longrightarrow> reachable (startGame a t)"
| jumped: "reachable a \<Longrightarrow> reachable (jump a)"
| ticked: "reachable a \<Longrightarrow> gameLoop a i = Some a' \<Longrightarrow> reachable a'"
| collided: "reachable a \<Longrightarrow> reachable (collisionEffect a)"

code_pred reachable .

text \<open>A frame two seconds after the start, when an obstacle is due.\<close>

definition lateInput :: tick_input where
  "lateInput = \<lparr>now = 2000, rndInterval = 1 / 2, rndType = 1 / 4\<rparr>"

section \<open>Evaluating the arithmetic on literals\<close>

lemma bitlen_numeral_simps:
  "bitlen 1 = 1"
  "bitlen (numeral (Num.Bit0 k)) = bitlen (numeral k) + 1"
  "bitlen (numeral (Num.Bit1 k)) = bitlen (numeral k) + 1"
proof -
  show "bitlen 1 = 1"
    by (simp add: bitlen_alt_def)
  have "numeral (Num.Bit0 k) div (2::int) = numeral k"
    by simp
  then show "bitlen (numeral (Num.Bit0 k)) = bitlen (numeral k) + 1"
    using compute_bitlen[of "numeral (Num.Bit0 k)"] by simp
  have "numeral (Num.Bit1 k) div (2::int) = numeral k"
    by simp
  then show "bitlen (numeral (Num.Bit1 k)) = bitlen (numeral k) + 1"
    using compute_bitlen[of "numeral (Num.Bit1 k)"] by simp
qed

lemmas pow2_lit =
  pow2_def[of 0] pow2_def[of 1] pow2_def[of "numeral k"] pow2_def[of "- numeral k"] for k

lemmas round_half_even_lit =
  round_half_even_def[of 0] round_half_even_def[of 1] round_half_even_def[of "- 1"]
  round_half_even_def[of "numeral a"] round_half_even_def[of "- numeral a"]
  round_half_even_def[of "numeral a / numeral b"]
  round_half_even_def[of "- (numeral a / numeral b)"]
  round_half_even_def[of "1 / numeral b"] round_half_even_def[of "- (1 / numeral b)"]
  for a b

lemmas ilog2_lit =
  ilog2_def[of 1] ilog2_def[of "numeral a"] ilog2_def[of "numeral a / numeral b"]
  ilog2_def[of "1 / numeral b"]
  for a b

lemmas fround_lit =
  fround_def[of 0] fround_def[of 1] fround_def[of "- 1"]
  fround_def[of "numeral a"] fround_def[of "- numeral a"]
  fround_def[of "numeral a / numeral b"]
  fround_def[of "- (numeral a / numeral b)"]
  fround_def[of "1 / numeral b"] fround_def[of "- (1 / numeral b)"]
  for a b

lemmas float_eval =
  fadd_def fsub_def fmul_def fdiv_def fround_lit ilog2_lit
  round_half_even_lit pow2_lit bitlen_numeral_simps

lemmas const_defs =
  CANVAS_WIDTH_def CANVAS_HEIGHT_def GROUND_HEIGHT_def JUMP_FORCE_def INITIAL_SPEED_def

lemma GRAVITY_value: "GRAVITY = 3602879701896397 / 4503599627370496"
  by (simp add: GRAVITY_def float_eval)

lemma SPEED_INCREMENT_value: "SPEED_INCREMENT = 1152921504606847 / 576460752303423488"
  by (simp add: SPEED_INCREMENT_def float_eval)

lemma initialPlayer_value:
  "initialPlayer = \<lparr>x = 80, y = 280, width = 28, height = 40, velocityY = 0,
     isJumping = False, onGround = True, animFrame = 0\<rparr>"
  by (simp add: initialPlayer_def const_defs float_eval)

lemmas app_defs =
  startedApp_def initialApp_def startGame_def crowdedApp_def sampleInput_def
  rockAhead_def spikeLeaving_def grazingPlayer_def grazedRock_def

lemmas edge_defs =
  hitLeft_def hitRight_def hitTop_def hitBottom_def spriteBottom_def
  obLeft_def obRight_def obTop_def obBottom_def

section \<open>Properties of rounding\<close>

text \<open>
  Rounding keeps the sign, is monotone and idempotent, and the largest double below 1 is
  \<open>1 - 2^-53\<close>.
\<close>

lemma pow2_pos: "0 < pow2 e"
  by (simp add: pow2_def)

lemma round_half_even_nonneg: "0 \<le> r \<Longrightarrow> 0 \<le> round_half_even r"
  by (auto simp add: round_half_even_def Let_def)

lemma fround_nonneg: "0 \<le> q \<Longrightarrow> 0 \<le> fround q"
  by (simp add: fround_def Let_def round_half_even_nonneg pow2_pos less_imp_le)

lemma pow2_powi: "pow2 e = 2 powi e"
  by (simp only: pow2_def power_int_def inverse_eq_divide power_one_over)

lemma pow2_add: "pow2 (a + b) = pow2 a * pow2 b"
  by (simp add: pow2_powi power_int_add)

lemma pow2_mono: "a \<le> b \<Longrightarrow> pow2 a \<le> pow2 b"
  by (simp add: pow2_powi power_int_increasing)

lemma pow2_nat: "0 \<le> e \<Longrightarrow> pow2 e = 2 ^ nat e"
  by (simp add: pow2_def)

lemma pow2_neg: "0 \<le> e \<Longrightarrow> pow2 (- e) = 1 / 2 ^ nat e"
  by (simp add: pow2_def)

lemma recip_le: "0 < a \<Longrightarrow> 0 < b \<Longrightarrow> 1 / a \<le> b \<Longrightarrow> 1 / b \<le> (a::real)"
  by (simp add: pos_divide_le_eq mult.commute)

lemma recip_less: "0 < a \<Longrightarrow> 0 < b \<Longrightarrow> b < 1 / a \<Longrightarrow> a < 1 / (b::real)"
  by (simp add: pos_less_divide_eq mult.commute)

lemma ilog2_bounds_ge1:
  assumes "1 \<le> a"
  shows "pow2 (ilog2 a) \<le> a" and "a < pow2 (ilog2 a + 1)"
proof -
  have n: "0 < \<lfloor>a\<rfloor>"
    using assms by linarith
  then have b: "1 \<le> bitlen \<lfloor>a\<rfloor>"
    using bitlen_eq_zero_iff [of "\<lfloor>a\<rfloor>"] bitlen_nonneg [of "\<lfloor>a\<rfloor>"] by linarith
  have lo: "(2::int) ^ nat (bitlen \<lfloor>a\<rfloor> - 1) \<le> \<lfloor>a\<rfloor>"
    and hi: "\<lfloor>a\<rfloor> < 2 ^ nat (bitlen \<lfloor>a\<rfloor>)"
    using bitlen_bounds [OF n] by simp_all
  have "real_of_int (2 ^ nat (bitlen \<lfloor>a\<rfloor> - 1)) \<le> a"
    using lo by (simp only: le_floor_iff)
  then have "(2::real) ^ nat (bitlen \<lfloor>a\<rfloor> - 1) \<le> a"
    by simp
  then show "pow2 (ilog2 a) \<le> a"
    using assms b by (simp add: ilog2_def pow2_nat)
  have "a < real_of_int (2 ^ nat (bitlen \<lfloor>a\<rfloor>))"
    using hi by (simp only: floor_less_iff)
  then have "a < (2::real) ^ nat (bitlen \<lfloor>a\<rfloor>)"
    by simp
  then show "a < pow2 (ilog2 a + 1)"
    using assms b by (simp add: ilog2_def pow2_nat)
qed

lemma ilog2_bounds_lt1:
  assumes "0 < a" "a < 1"
  shows "pow2 (ilog2 a) \<le> a" and "a < pow2 (ilog2 a + 1)"
proof -
  let ?m = "\<lceil>1 / a\<rceil> - 1"
  have e: "ilog2 a = - bitlen ?m"
    using assms by (simp add: ilog2_def)
  have "1 < 1 / a"
    using assms by simp
  then have m: "0 < ?m"
    by linarith
  then have b: "1 \<le> bitlen ?m"
    using bitlen_eq_zero_iff [of ?m] bitlen_nonneg [of ?m] by linarith
  have lo: "(2::int) ^ nat (bitlen ?m - 1) \<le> ?m" and hi: "?m < 2 ^ nat (bitlen ?m)"
    using bitlen_bounds [OF m] by simp_all
  have "\<lceil>1 / a\<rceil> \<le> 2 ^ nat (bitlen ?m)"
    using hi by linarith
  then have "1 / a \<le> real_of_int (2 ^ nat (bitlen ?m))"
    by (simp only: ceiling_le_iff)
  then have "1 / a \<le> 2 ^ nat (bitlen ?m)"
    by simp
  then have "1 / 2 ^ nat (bitlen ?m) \<le> a"
    using assms(1) by (rule_tac recip_le) simp_all
  moreover have "pow2 (- bitlen ?m) = 1 / 2 ^ nat (bitlen ?m)"
    by (intro pow2_neg) (rule bitlen_nonneg)
  ultimately show "pow2 (ilog2 a) \<le> a"
    by (simp only: e)
  have "2 ^ nat (bitlen ?m - 1) < \<lceil>1 / a\<rceil>"
    using lo by linarith
  then have "real_of_int (2 ^ nat (bitlen ?m - 1)) < 1 / a"
    by (simp only: less_ceiling_iff)
  then have "2 ^ nat (bitlen ?m - 1) < 1 / a"
    by simp
  then have up: "a < 1 / 2 ^ nat (bitlen ?m - 1)"
    using assms(1) by (rule_tac recip_less) simp_all
  have s: "ilog2 a + 1 = - (bitlen ?m - 1)"
    unfolding e by linarith
  have "pow2 (- (bitlen ?m - 1)) = 1 / 2 ^ nat (bitlen ?m - 1)"
    using b by (intro pow2_neg) linarith
  with up show "a < pow2 (ilog2 a + 1)"
    by (simp only: s)
qed

lemma ilog2_bounds:
  assumes "0 < a"
  shows "pow2 (ilog2 a) \<le> a" and "a < pow2 (ilog2 a + 1)"
  using assms ilog2_bounds_ge1 [of a] ilog2_bounds_lt1 [of a] by (cases "1 \<le> a"; simp)+

lemma ilog2_unique:
  assumes "pow2 k \<le> a" "a < pow2 (k + 1)"
  shows "ilog2 a = k"
proof -
  have pos: "0 < a"
    using assms(1) pow2_pos [of k] by linarith
  have "\<not> ilog2 a < k"
  proof
    assume "ilog2 a < k"
    then have "pow2 (ilog2 a + 1) \<le> pow2 k"
      by (intro pow2_mono) simp
    then show False
      using ilog2_bounds(2) [OF pos] assms(1) by linarith
  qed
  moreover have "\<not> k < ilog2 a"
  proof
    assume "k < ilog2 a"
    then have "pow2 (k + 1) \<le> pow2 (ilog2 a)"
      by (intro pow2_mono) simp
    then show False
      using ilog2_bounds(1) [OF pos] assms(2) by linarith
  qed
  ultimately show ?thesis
    by linarith
qed

lemma ilog2_mono:
  assumes "0 < a" "a \<le> b"
  shows "ilog2 a \<le> ilog2 b"
proof (rule ccontr)
  assume "\<not> ilog2 a \<le> ilog2 b"
  then have "pow2 (ilog2 b + 1) \<le> pow2 (ilog2 a)"
    by (intro pow2_mono) simp
  then show False
    using ilog2_bounds(1) [OF assms(1)] ilog2_bounds(2) [of b] assms by linarith
qed
lemma round_half_even_of_int: "round_half_even (of_int k) = k"
  by (simp add: round_half_even_def)

lemma round_half_even_range:
  "\<lfloor>r\<rfloor> \<le> round_half_even r" "round_half_even r \<le> \<lfloor>r\<rfloor> + 1"
  by (simp_all add: round_half_even_def Let_def)

lemma round_half_even_mono:
  assumes "r \<le> s"
  shows "round_half_even r \<le> round_half_even s"
proof (cases "\<lfloor>r\<rfloor> = \<lfloor>s\<rfloor>")
  case True
  then show ?thesis
    using assms by (simp add: round_half_even_def Let_def)
next
  case False
  then have "\<lfloor>r\<rfloor> + 1 \<le> \<lfloor>s\<rfloor>"
    using floor_mono [OF assms] by linarith
  then show ?thesis
    using round_half_even_range(2) [of r] round_half_even_range(1) [of s] by linarith
qed

lemma round_half_even_minus: "round_half_even (- r) = - round_half_even r"
proof (cases "of_int \<lfloor>r\<rfloor> = r")
  case True
  then have "round_half_even (- of_int \<lfloor>r\<rfloor>) = - round_half_even (of_int \<lfloor>r\<rfloor>)"
    using round_half_even_of_int [of "- \<lfloor>r\<rfloor>"] round_half_even_of_int [of "\<lfloor>r\<rfloor>"]
    by simp
  then show ?thesis
    by (simp only: True)
next
  case False
  then have lt: "of_int \<lfloor>r\<rfloor> < r"
    using of_int_floor_le [of r] by linarith
  have "\<lfloor>- r\<rfloor> = - \<lfloor>r\<rfloor> - 1"
    using lt by (intro floor_unique) (simp, linarith+)
  then show ?thesis
    by (auto simp add: round_half_even_def Let_def)
qed

lemma fround_lsbExp:
  "q \<noteq> 0 \<Longrightarrow> fround q = of_int (round_half_even (q / pow2 (lsbExp q))) * pow2 (lsbExp q)"
  by (simp add: fround_def lsbExp_def Let_def)

lemma fround_minus: "fround (- q) = - fround q"
  by (simp add: fround_def Let_def round_half_even_minus)

lemma pow2_52_53: "pow2 52 = 2 ^ 52" "pow2 53 = 2 ^ 53"
  by (simp_all add: pow2_def)

lemma scaled_below_2_53:
  assumes "0 < q"
  shows "q / pow2 (lsbExp q) < 2 ^ 53"
proof -
  have "ilog2 q + 1 \<le> lsbExp q + 53"
    using assms by (simp add: lsbExp_def)
  then have "pow2 (ilog2 q + 1) \<le> pow2 (lsbExp q + 53)"
    by (rule pow2_mono)
  then have "q < pow2 (lsbExp q + 53)"
    using ilog2_bounds(2) [OF assms] by linarith
  also have "pow2 (lsbExp q + 53) = pow2 (lsbExp q) * 2 ^ 53"
    by (simp add: pow2_add pow2_52_53)
  finally show ?thesis
    using pow2_pos [of "lsbExp q"] by (simp add: pos_divide_less_eq mult.commute)
qed

lemma scaled_above_2_52:
  assumes "0 < q" "- 1074 \<le> ilog2 q - 52"
  shows "2 ^ 52 \<le> q / pow2 (lsbExp q)"
proof -
  have p: "lsbExp q + 52 = ilog2 q"
    using assms by (simp add: lsbExp_def)
  have "pow2 (lsbExp q) * 2 ^ 52 = pow2 (lsbExp q + 52)"
    by (simp add: pow2_add pow2_52_53)
  also have "\<dots> \<le> q"
    unfolding p using assms(1) by (rule ilog2_bounds(1))
  finally show ?thesis
    using pow2_pos [of "lsbExp q"] by (simp add: pos_le_divide_eq mult.commute)
qed

lemma fround_upper:
  assumes "0 < q"
  shows "fround q \<le> pow2 (lsbExp q + 53)"
proof -
  have "q / pow2 (lsbExp q) \<le> of_int (2 ^ 53)"
    using scaled_below_2_53 [OF assms] by simp
  then have "round_half_even (q / pow2 (lsbExp q)) \<le> round_half_even (of_int (2 ^ 53))"
    by (rule round_half_even_mono)
  then have "round_half_even (q / pow2 (lsbExp q)) \<le> 2 ^ 53"
    by (simp only: round_half_even_of_int)
  then have "real_of_int (round_half_even (q / pow2 (lsbExp q))) \<le> of_int (2 ^ 53)"
    by (simp only: of_int_le_iff)
  then have "of_int (round_half_even (q / pow2 (lsbExp q))) * pow2 (lsbExp q)
      \<le> of_int (2 ^ 53) * pow2 (lsbExp q)"
    using pow2_pos [of "lsbExp q"] by (intro mult_right_mono) simp_all
  moreover have "pow2 (lsbExp q + 53) = of_int (2 ^ 53) * pow2 (lsbExp q)"
    by (simp add: pow2_add pow2_52_53)
  ultimately show ?thesis
    using assms by (simp only: fround_lsbExp)
qed

lemma fround_lower:
  assumes "0 < q" "- 1074 \<le> ilog2 q - 52"
  shows "pow2 (ilog2 q) \<le> fround q"
proof -
  have p: "lsbExp q + 52 = ilog2 q"
    using assms by (simp add: lsbExp_def)
  have "of_int (2 ^ 52) \<le> q / pow2 (lsbExp q)"
    using scaled_above_2_52 [OF assms] by simp
  then have "round_half_even (of_int (2 ^ 52)) \<le> round_half_even (q / pow2 (lsbExp q))"
    by (rule round_half_even_mono)
  then have "2 ^ 52 \<le> round_half_even (q / pow2 (lsbExp q))"
    by (simp only: round_half_even_of_int)
  then have "real_of_int (2 ^ 52) \<le> of_int (round_half_even (q / pow2 (lsbExp q)))"
    by (simp only: of_int_le_iff)
  then have "of_int (2 ^ 52) * pow2 (lsbExp q)
      \<le> of_int (round_half_even (q / pow2 (lsbExp q))) * pow2 (lsbExp q)"
    using pow2_pos [of "lsbExp q"] by (intro mult_right_mono) simp_all
  moreover have "pow2 (lsbExp q + 52) = of_int (2 ^ 52) * pow2 (lsbExp q)"
    by (simp add: pow2_add pow2_52_53)
  ultimately show ?thesis
    using assms(1) by (simp only: fround_lsbExp p [symmetric])
qed

lemma fround_mono_pos:
  assumes "0 < a" "a \<le> b"
  shows "fround a \<le> fround b"
proof -
  have b: "0 < b"
    using assms by linarith
  have "ilog2 a \<le> ilog2 b"
    using assms by (rule ilog2_mono)
  then have le: "lsbExp a \<le> lsbExp b"
    using assms b by (simp add: lsbExp_def)
  show ?thesis
  proof (cases "lsbExp a = lsbExp b")
    case True
    have "a / pow2 (lsbExp b) \<le> b / pow2 (lsbExp b)"
      using assms(2) pow2_pos [of "lsbExp b"] by (simp add: divide_right_mono)
    then have "round_half_even (a / pow2 (lsbExp b)) \<le> round_half_even (b / pow2 (lsbExp b))"
      by (rule round_half_even_mono)
    then have "real_of_int (round_half_even (a / pow2 (lsbExp b)))
        \<le> of_int (round_half_even (b / pow2 (lsbExp b)))"
      by (simp only: of_int_le_iff)
    then have "of_int (round_half_even (a / pow2 (lsbExp b))) * pow2 (lsbExp b)
        \<le> of_int (round_half_even (b / pow2 (lsbExp b))) * pow2 (lsbExp b)"
      using pow2_pos [of "lsbExp b"] by (intro mult_right_mono) simp_all
    then show ?thesis
      using assms(1) b by (simp add: fround_lsbExp True)
  next
    case False
    then have lt: "lsbExp a < lsbExp b"
      using le by linarith
    have "- 1074 \<le> lsbExp a"
      by (simp add: lsbExp_def)
    then have nb: "- 1074 \<le> ilog2 b - 52" and pb: "lsbExp b = ilog2 b - 52"
      using lt b by (simp_all add: lsbExp_def max_def split: if_splits)
    have "fround a \<le> pow2 (lsbExp a + 53)"
      using assms(1) by (rule fround_upper)
    also have "\<dots> \<le> pow2 (ilog2 b)"
      using lt pb by (intro pow2_mono) linarith
    also have "\<dots> \<le> fround b"
      using b nb by (rule fround_lower)
    finally show ?thesis .
  qed
qed

lemma fround_nonpos: "q \<le> 0 \<Longrightarrow> fround q \<le> 0"
  using fround_nonneg [of "- q"] by (simp add: fround_minus)

lemma fround_mono:
  assumes "a \<le> b"
  shows "fround a \<le> fround b"
proof -
  consider "0 < a" | "a \<le> 0" "0 \<le> b" | "b < 0"
    using assms by linarith
  then show ?thesis
  proof cases
    case 1
    then show ?thesis
      using assms by (rule fround_mono_pos)
  next
    case 2
    then show ?thesis
      using fround_nonpos [of a] fround_nonneg [of b] by linarith
  next
    case 3
    then have "fround (- b) \<le> fround (- a)"
      using assms by (intro fround_mono_pos) simp_all
    then show ?thesis
      by (simp add: fround_minus)
  qed
qed
lemma fround_exact:
  assumes "0 < n" "n < 2 ^ 53" "- 1074 \<le> p" "p = - 1074 \<or> 2 ^ 52 \<le> n"
  shows "fround (of_int n * pow2 p) = of_int n * pow2 p"
proof -
  let ?q = "real_of_int n * pow2 p"
  let ?j = "ilog2 (of_int n)"
  have n1: "1 \<le> real_of_int n" and n53: "real_of_int n < 2 ^ 53"
    using assms(1,2) by (simp_all add: of_int_less_numeral_power_cancel_iff)
  have q: "0 < ?q"
    using assms(1) pow2_pos [of p] by simp
  have lo: "pow2 ?j \<le> of_int n" and hi: "real_of_int n < pow2 (?j + 1)"
    using ilog2_bounds [of "real_of_int n"] assms(1) by simp_all
  have j0: "0 \<le> ?j"
  proof (rule ccontr)
    assume "\<not> 0 \<le> ?j"
    then have "pow2 (?j + 1) \<le> pow2 0"
      by (intro pow2_mono) linarith
    then show False
      using hi n1 by (simp add: pow2_def)
  qed
  have j52: "?j \<le> 52"
  proof (rule ccontr)
    assume "\<not> ?j \<le> 52"
    then have "pow2 53 \<le> pow2 ?j"
      by (intro pow2_mono) linarith
    then show False
      using lo n53 by (simp add: pow2_52_53)
  qed
  have "pow2 (?j + p) \<le> ?q"
    using lo pow2_pos [of p] by (simp add: pow2_add mult_right_mono)
  moreover have "?q < pow2 (?j + p + 1)"
  proof -
    have "?q < pow2 (?j + 1) * pow2 p"
      using hi pow2_pos [of p] by (simp add: mult_strict_right_mono)
    also have "\<dots> = pow2 (?j + p + 1)"
      by (simp add: pow2_add mult.commute mult.left_commute)
    finally show ?thesis .
  qed
  ultimately have e: "ilog2 ?q = ?j + p"
    by (rule ilog2_unique)
  have "max (?j + p - 52) (- 1074) = p"
  proof (cases "p = - 1074")
    case True
    then show ?thesis
      using j52 by simp
  next
    case False
    with assms(4) have "2 ^ 52 \<le> n"
      by simp
    then have "real_of_int (2 ^ 52) \<le> of_int n"
      by (simp only: of_int_le_iff)
    then have "pow2 52 < pow2 (?j + 1)"
      using hi by (simp add: pow2_52_53)
    then have "52 < ?j + 1"
      using pow2_mono [of "?j + 1" 52] by (cases "52 < ?j + 1") simp_all
    then show ?thesis
      using j52 assms(3) by simp
  qed
  then have p: "lsbExp ?q = p"
    using q by (simp add: lsbExp_def e)
  have "?q / pow2 p = of_int n"
    using pow2_pos [of p] by simp
  then have r: "round_half_even (?q / pow2 p) = n"
    by (simp only: round_half_even_of_int)
  have "fround ?q = of_int (round_half_even (?q / pow2 (lsbExp ?q))) * pow2 (lsbExp ?q)"
    using q by (intro fround_lsbExp) linarith
  then show ?thesis
    by (simp only: p r)
qed

lemma fround_idem_pos:
  assumes "0 < q"
  shows "fround (fround q) = fround q"
proof -
  let ?p = "lsbExp q"
  let ?n = "round_half_even (q / pow2 ?p)"
  have f: "fround q = of_int ?n * pow2 ?p"
    using assms by (simp add: fround_lsbExp)
  have p: "- 1074 \<le> ?p"
    by (simp add: lsbExp_def)
  have "0 \<le> q / pow2 ?p"
    using assms pow2_pos [of ?p] by simp
  then have n0: "0 \<le> ?n"
    by (rule round_half_even_nonneg)
  have "q / pow2 ?p \<le> of_int (2 ^ 53)"
    using scaled_below_2_53 [OF assms] by simp
  then have "?n \<le> round_half_even (of_int (2 ^ 53))"
    by (rule round_half_even_mono)
  then have n53: "?n \<le> 2 ^ 53"
    by (simp only: round_half_even_of_int)
  consider "?n = 0" | "?n = 2 ^ 53" | "0 < ?n" "?n < 2 ^ 53"
    using n0 n53 by linarith
  then show ?thesis
  proof cases
    case 1
    then have "fround q = 0"
      by (simp add: f)
    moreover have "fround 0 = 0"
      by (simp add: fround_def)
    ultimately show ?thesis
      by (simp only:)
  next
    case 2
    have "fround (of_int (2 ^ 52) * pow2 (?p + 1)) = of_int (2 ^ 52) * pow2 (?p + 1)"
      using p by (intro fround_exact) simp_all
    moreover have "pow2 1 = 2"
      by (simp add: pow2_def)
    then have "of_int (2 ^ 52) * pow2 (?p + 1) = of_int ?n * pow2 ?p"
      by (simp add: 2 pow2_add)
    ultimately show ?thesis
      by (simp only: f)
  next
    case 3
    have "?p = - 1074 \<or> 2 ^ 52 \<le> ?n"
    proof (cases "?p = - 1074")
      case True
      then show ?thesis by simp
    next
      case False
      then have "- 1074 \<le> ilog2 q - 52"
        using assms by (simp add: lsbExp_def max_def split: if_splits)
      then have "of_int (2 ^ 52) \<le> q / pow2 ?p"
        using scaled_above_2_52 [OF assms] by simp
      then have "round_half_even (of_int (2 ^ 52)) \<le> ?n"
        by (rule round_half_even_mono)
      then have "2 ^ 52 \<le> ?n"
        by (simp only: round_half_even_of_int)
      then show ?thesis
        by (rule disjI2)
    qed
    then have "fround (of_int ?n * pow2 ?p) = of_int ?n * pow2 ?p"
      using 3 p by (intro fround_exact)
    then show ?thesis
      by (simp only: f)
  qed
qed

lemma fround_idem: "fround (fround q) = fround q"
proof -
  consider "0 < q" | "q = 0" | "q < 0"
    by linarith
  then show ?thesis
  proof cases
    case 1
    then show ?thesis by (rule fround_idem_pos)
  next
    case 2
    then show ?thesis by (simp add: fround_def)
  next
    case 3
    then have "fround (fround (- q)) = fround (- q)"
      by (intro fround_idem_pos) simp
    then show ?thesis
      by (simp add: fround_minus)
  qed
qed

lemma double_below_one:
  assumes "fround r = r" "r < 1"
  shows "r \<le> 1 - 1 / 2 ^ 53"
proof (rule ccontr)
  assume "\<not> r \<le> 1 - 1 / 2 ^ 53"
  then have lo: "1 - 1 / 2 ^ 53 < r"
    by simp
  then have r: "0 < r" "1 / 2 \<le> r"
    by simp_all
  have "pow2 (- 1) \<le> r" "r < pow2 (- 1 + 1)"
    using r assms(2) by (simp_all add: pow2_def)
  then have "ilog2 r = - 1"
    by (rule ilog2_unique)
  then have p: "lsbExp r = - 53"
    using r by (simp add: lsbExp_def)
  have s: "r / pow2 (- 53) = r * 2 ^ 53"
    by (simp add: pow2_def)
  have "fround r = of_int (round_half_even (r * 2 ^ 53)) * pow2 (- 53)"
    using r(1) fround_lsbExp [of r] by (simp only: p s)
  then have "r * 2 ^ 53 = of_int (round_half_even (r * 2 ^ 53))"
    using assms(1) by (simp add: pow2_def)
  moreover have "2 ^ 53 - 1 < r * 2 ^ 53" "r * 2 ^ 53 < 2 ^ 53"
    using lo assms(2) by (simp_all add: field_simps)
  ultimately have "real_of_int (2 ^ 53 - 1) < of_int (round_half_even (r * 2 ^ 53))"
    "real_of_int (round_half_even (r * 2 ^ 53)) < of_int (2 ^ 53)"
    by simp_all
  then have "2 ^ 53 - 1 < round_half_even (r * 2 ^ 53)" "round_half_even (r * 2 ^ 53) < 2 ^ 53"
    by (simp_all only: of_int_less_iff)
  then show False
    by linarith
qed

section \<open>The collision test\<close>

text \<open>
  C1, as amended. \<^verbatim>\<open>checkCollision\<close> is the conjunction of four strict comparisons. The
  player's left, right and top edges are moved inwards by 6; the fourth comparison uses
  the bottom edge of the full sprite, \<open>y + height\<close>, which is not inset.
\<close>

theorem checkCollision_inset_three_sides:
  "checkCollision p ob \<longleftrightarrow>
     hitLeft 6 p < obRight ob \<and> hitRight 6 p > obLeft ob \<and>
     hitTop 6 p < obBottom ob \<and> spriteBottom p > obTop ob"
  by (simp add: checkCollision_def edge_defs)

lemma grazing_bottom_inset:
  assumes "1 \<le> ib"
  shows "\<not> insetOverlap 6 6 6 ib grazingPlayer grazedRock"
proof -
  have "fround (297 - ib) \<le> fround 296"
    using assms by (intro fround_mono) simp
  moreover have "fround 296 = 296" "fadd 257 40 = 297"
    by (simp_all add: float_eval)
  ultimately have "hitBottom ib grazingPlayer \<le> obTop grazedRock"
    by (simp add: hitBottom_def obTop_def fsub_def grazingPlayer_def grazedRock_def
        initialPlayer_value)
  then show ?thesis
    by (simp add: insetOverlap_def)
qed

text \<open>
  A falling player whose feet are one pixel below the top of a rock: \<^verbatim>\<open>checkCollision\<close>
  reports a hit, and no hitbox whose bottom edge is inset by a pixel or more, with the
  other three sides inset by 6, overlaps the rock.
\<close>

theorem checkCollision_bottom_inset_counterexample:
  "checkCollision grazingPlayer grazedRock \<and>
   \<not> insetOverlap 6 6 6 6 grazingPlayer grazedRock \<and>
   \<not> (\<exists>ib. 1 \<le> ib \<and> insetOverlap 6 6 6 ib grazingPlayer grazedRock)"
proof -
  have "checkCollision grazingPlayer grazedRock"
    by (simp add: checkCollision_def grazingPlayer_def grazedRock_def initialPlayer_value
        float_eval)
  moreover have "\<not> insetOverlap 6 6 6 ib grazingPlayer grazedRock" if "1 \<le> ib" for ib
    using that by (rule grazing_bottom_inset)
  ultimately show ?thesis
    by simp
qed

section \<open>The jump command\<close>

lemma jump_airborne: "\<not> onGround (player a) \<Longrightarrow> jump a = a"
  by (cases a) (simp add: jump_def jump_setPlayer_def)

lemma jump_funpow_airborne: "\<not> onGround (player a) \<Longrightarrow> (jump ^^ n) a = a"
  by (induction n) (simp_all add: jump_airborne)

text \<open>
  C5. \<^verbatim>\<open>jump\<close> changes the state only when the game is playing, not over, and the
  player is on the ground; it then sets the velocity to \<open>-16\<close> and \<open>onGround\<close> to false
  (and \<open>isJumping\<close> to true). From an airborne state any number of jumps changes nothing,
  and jumping twice is jumping once.
\<close>

theorem jump_only_from_ground:
  "jump a =
     (if isPlaying (gameState a) \<and> \<not> isGameOver (gameState a) \<and> onGround (player a)
      then a\<lparr>player := (player a)\<lparr>velocityY := - 16, isJumping := True, onGround := False\<rparr>\<rparr>
      else a) \<and>
   (\<not> onGround (player a) \<longrightarrow> (jump ^^ n) a = a) \<and>
   jump (jump a) = jump a"
  by (cases a) (auto simp add: jump_def jump_setPlayer_def JUMP_FORCE_def jump_funpow_airborne)

theorem jump_only_from_ground_witness:
  "\<not> onGround (player (jump startedApp)) \<and> velocityY (player (jump startedApp)) = - 16 \<and>
   (jump ^^ 3) (jump startedApp) = jump startedApp"
  using jump_only_from_ground [of "jump startedApp" 3]
  by (simp add: jump_def jump_setPlayer_def app_defs initialPlayer_value JUMP_FORCE_def)

section \<open>One tick of a freshly started game\<close>

lemma interval_sample: "interval 4 (1 / 2) = 1000"
  by (simp add: interval_def speedMultiplier_def const_defs float_eval)

lemma setObstacles_sample: "gameLoop_setObstacles 4 0 sampleInput [] = Some ([], 0)"
  by (simp add: gameLoop_setObstacles_def spawnDue_def interval_sample sampleInput_def float_eval)

lemma setPlayer_sample: "gameLoop_setPlayer 1 initialPlayer = initialPlayer\<lparr>animFrame := 1\<rparr>"
  by (simp add: gameLoop_setPlayer_def groundY_def initialPlayer_value const_defs
      GRAVITY_value float_eval Let_def)

lemma setGameState_sample:
  "gameLoop_setGameState \<lparr>isPlaying = True, isGameOver = False, score = 0, speed = 4\<rparr> =
     \<lparr>isPlaying = True, isGameOver = False, score = 1,
      speed = 4505851427184181 / 1125899906842624\<rparr>"
  by (simp add: gameLoop_setGameState_def SPEED_INCREMENT_value float_eval)

lemma gameLoop_startedApp:
  "gameLoop startedApp sampleInput =
     Some (startedApp\<lparr>groundOffsetRef := - 4, animationFrameRef := 1,
       player := initialPlayer\<lparr>animFrame := 1\<rparr>,
       gameState := \<lparr>isPlaying = True, isGameOver = False, score = 1,
         speed = 4505851427184181 / 1125899906842624\<rparr>\<rparr>)"
proof -
  have "fadd 0 1 = 1" "fsub 0 4 = - 4"
    by (simp_all add: float_eval)
  then show ?thesis
    by (simp add: gameLoop_def startedApp_def startGame_def initialApp_def INITIAL_SPEED_def
        setObstacles_sample setPlayer_sample setGameState_sample)
qed

lemma tickedApp_value:
  "tickedApp = startedApp\<lparr>groundOffsetRef := - 4, animationFrameRef := 1,
      player := initialPlayer\<lparr>animFrame := 1\<rparr>,
      gameState := \<lparr>isPlaying = True, isGameOver = False, score = 1,
        speed = 4505851427184181 / 1125899906842624\<rparr>\<rparr>"
  by (simp add: tickedApp_def gameLoop_startedApp)

section \<open>The collision effect\<close>

lemma collisionLoop_cases:
  "collisionLoop p obs gs =
     (if \<exists>ob \<in> set obs. checkCollision p ob then gs\<lparr>isGameOver := True\<rparr> else gs)"
  by (induction obs) auto

lemma gameLoop_game_over: "isGameOver (gameState a) \<Longrightarrow> gameLoop a i = Some a"
  by (simp add: gameLoop_def)

lemma collision_crowdedApp:
  "\<not> checkCollision initialPlayer spikeLeaving" "checkCollision initialPlayer rockAhead"
  by (simp_all add: checkCollision_def initialPlayer_value spikeLeaving_def rockAhead_def float_eval)

text \<open>
  C10. The collision effect leaves the player, the obstacles, the three refs and the
  fields \<open>score\<close>, \<open>speed\<close> and \<open>isPlaying\<close> as they are. When the game is
  playing and some obstacle overlaps the player, the result is the same state with
  \<open>isGameOver\<close> set, and a later \<^verbatim>\<open>gameLoop\<close> leaves that state, so also its score and
  speed, unchanged.
\<close>

theorem collisionEffect_sets_only_isGameOver:
  "player (collisionEffect a) = player a \<and>
   obstacles (collisionEffect a) = obstacles a \<and>
   lastObstacleRef (collisionEffect a) = lastObstacleRef a \<and>
   groundOffsetRef (collisionEffect a) = groundOffsetRef a \<and>
   animationFrameRef (collisionEffect a) = animationFrameRef a \<and>
   score (gameState (collisionEffect a)) = score (gameState a) \<and>
   speed (gameState (collisionEffect a)) = speed (gameState a) \<and>
   isPlaying (gameState (collisionEffect a)) = isPlaying (gameState a) \<and>
   (isPlaying (gameState a) \<and> \<not> isGameOver (gameState a) \<and>
    (\<exists>ob \<in> set (obstacles a). checkCollision (player a) ob) \<longrightarrow>
      collisionEffect a = a\<lparr>gameState := (gameState a)\<lparr>isGameOver := True\<rparr>\<rparr> \<and>
      gameLoop (collisionEffect a) i = Some (collisionEffect a))"
  by (simp add: collisionEffect_def collisionLoop_cases gameLoop_game_over)

theorem collisionEffect_sets_only_isGameOver_witness:
  "isPlaying (gameState crowdedApp) \<and> \<not> isGameOver (gameState crowdedApp) \<and>
   checkCollision (player crowdedApp) rockAhead \<and>
   isGameOver (gameState (collisionEffect crowdedApp)) \<and>
   score (gameState (collisionEffect crowdedApp)) = 0 \<and>
   gameLoop (collisionEffect crowdedApp) sampleInput = Some (collisionEffect crowdedApp)"
proof -
  have h: "isPlaying (gameState crowdedApp) \<and> \<not> isGameOver (gameState crowdedApp) \<and>
      (\<exists>ob \<in> set (obstacles crowdedApp). checkCollision (player crowdedApp) ob)"
    by (simp add: crowdedApp_def startedApp_def startGame_def collision_crowdedApp)
  note t = collisionEffect_sets_only_isGameOver [of crowdedApp sampleInput]
  from t h have e: "collisionEffect crowdedApp =
      crowdedApp\<lparr>gameState := (gameState crowdedApp)\<lparr>isGameOver := True\<rparr>\<rparr>"
    and g: "gameLoop (collisionEffect crowdedApp) sampleInput = Some (collisionEffect crowdedApp)"
    by blast+
  have o: "isGameOver (gameState (collisionEffect crowdedApp))"
    by (simp add: e)
  from t have "score (gameState (collisionEffect crowdedApp)) = score (gameState crowdedApp)"
    by blast
  then have s: "score (gameState (collisionEffect crowdedApp)) = 0"
    by (simp add: crowdedApp_def startedApp_def startGame_def)
  have c: "checkCollision (player crowdedApp) rockAhead"
    by (simp add: crowdedApp_def startedApp_def startGame_def collision_crowdedApp)
  from h g o s c show ?thesis
    by blast
qed

section \<open>Start and restart\<close>

lemma startGame_value:
  "startGame a t =
     \<lparr>gameState = \<lparr>isPlaying = True, isGameOver = False, score = 0, speed = 4\<rparr>,
      player = \<lparr>x = 80, y = 280, width = 28, height = 40, velocityY = 0,
                isJumping = False, onGround = True, animFrame = 0\<rparr>,
      obstacles = [], lastObstacleRef = t, groundOffsetRef = 0, animationFrameRef = 0\<rparr>"
  by (cases a) (simp add: startGame_def initialPlayer_value INITIAL_SPEED_def)

lemma crowdedApp_collides:
  "isGameOver (gameState (collisionEffect crowdedApp))"
  "obstacles (collisionEffect crowdedApp) = [spikeLeaving, rockAhead]"
proof -
  have "collisionLoop initialPlayer [spikeLeaving, rockAhead]
      \<lparr>isPlaying = True, isGameOver = False, score = 0, speed = 4\<rparr> =
      \<lparr>isPlaying = True, isGameOver = True, score = 0, speed = 4\<rparr>"
    by (simp add: collision_crowdedApp)
  then show "isGameOver (gameState (collisionEffect crowdedApp))"
    "obstacles (collisionEffect crowdedApp) = [spikeLeaving, rockAhead]"
    by (simp_all add: collisionEffect_def crowdedApp_def startedApp_def startGame_def
        INITIAL_SPEED_def)
qed

text \<open>
  C6. The start command, issued when the game is not playing (idle) or is over, yields
  the playing state with score 0, speed 4, the player in the initial pose (x 80, y at the
  ground clamp 280, velocity 0, on the ground) and no obstacle. Issued while the game is
  playing and not over, it leaves the whole state as it is.
\<close>

theorem startCommand_resets_or_ignores:
  "(\<not> isPlaying (gameState a) \<or> isGameOver (gameState a) \<longrightarrow>
      startCommand a t =
        \<lparr>gameState = \<lparr>isPlaying = True, isGameOver = False, score = 0, speed = 4\<rparr>,
         player = \<lparr>x = 80, y = 280, width = 28, height = 40, velocityY = 0,
                   isJumping = False, onGround = True, animFrame = 0\<rparr>,
         obstacles = [], lastObstacleRef = t, groundOffsetRef = 0, animationFrameRef = 0\<rparr> \<and>
      y (player (startCommand a t)) = fsub (fsub 400 80) (height (player (startCommand a t)))) \<and>
   (isPlaying (gameState a) \<and> \<not> isGameOver (gameState a) \<longrightarrow> startCommand a t = a)"
proof -
  have "fsub (fsub 400 80) 40 = 280"
    by (simp add: float_eval)
  then show ?thesis
    by (simp add: startCommand_def startButtonRendered_def startGame_value)
qed

theorem startCommand_resets_or_ignores_witness:
  "\<not> isPlaying (gameState initialApp) \<and>
   isPlaying (gameState (startCommand initialApp 1000)) \<and>
   score (gameState (startCommand initialApp 1000)) = 0 \<and>
   speed (gameState (startCommand initialApp 1000)) = 4 \<and>
   isGameOver (gameState (collisionEffect crowdedApp)) \<and>
   obstacles (collisionEffect crowdedApp) = [spikeLeaving, rockAhead] \<and>
   \<not> isGameOver (gameState (startCommand (collisionEffect crowdedApp) 1000)) \<and>
   obstacles (startCommand (collisionEffect crowdedApp) 1000) = [] \<and>
   isPlaying (gameState tickedApp) \<and> \<not> isGameOver (gameState tickedApp) \<and>
   score (gameState tickedApp) = 1 \<and>
   startCommand tickedApp 16 = tickedApp"
proof -
  have idle: "\<not> isPlaying (gameState initialApp)"
    by (simp add: initialApp_def)
  have playing: "isPlaying (gameState tickedApp)" "\<not> isGameOver (gameState tickedApp)"
    "score (gameState tickedApp) = 1"
    by (simp_all add: tickedApp_value)
  from startCommand_resets_or_ignores [of initialApp 1000] idle
  have a: "isPlaying (gameState (startCommand initialApp 1000))"
    "score (gameState (startCommand initialApp 1000)) = 0"
    "speed (gameState (startCommand initialApp 1000)) = 4"
    by simp_all
  from startCommand_resets_or_ignores [of "collisionEffect crowdedApp" 1000]
    crowdedApp_collides(1)
  have b: "\<not> isGameOver (gameState (startCommand (collisionEffect crowdedApp) 1000))"
    "obstacles (startCommand (collisionEffect crowdedApp) 1000) = []"
    by simp_all
  from startCommand_resets_or_ignores [of tickedApp 16] playing(1,2)
  have c: "startCommand tickedApp 16 = tickedApp"
    by blast
  from idle playing a b c crowdedApp_collides show ?thesis
    by blast
qed

section \<open>What one tick does to each part of the state\<close>

lemma gameLoop_playing:
  assumes "isPlaying (gameState a)" "\<not> isGameOver (gameState a)" "gameLoop a i = Some a'"
  shows "player a' = gameLoop_setPlayer (fadd (animationFrameRef a) 1) (player a)"
    and "gameState a' = gameLoop_setGameState (gameState a)"
    and "gameLoop_setObstacles (speed (gameState a)) (lastObstacleRef a) i (obstacles a) =
           Some (obstacles a', lastObstacleRef a')"
    and "animationFrameRef a' = fadd (animationFrameRef a) 1"
    and "groundOffsetRef a' = fsub (groundOffsetRef a) (speed (gameState a))"
  using assms by (auto simp add: gameLoop_def Let_def split: option.splits)

lemma gameLoop_setPlayer_clamp:
  "y (gameLoop_setPlayer frame prev) \<le> groundY prev"
  "onGround (gameLoop_setPlayer frame prev) \<longleftrightarrow> y (gameLoop_setPlayer frame prev) = groundY prev"
  "onGround (gameLoop_setPlayer frame prev) \<Longrightarrow> velocityY (gameLoop_setPlayer frame prev) = 0"
  "height (gameLoop_setPlayer frame prev) = height prev"
  by (auto simp add: gameLoop_setPlayer_def Let_def)

section \<open>The ground clamp\<close>

text \<open>
  C2. After a tick run while playing and not over, the player's \<open>y\<close> is at most the
  ground clamp, \<open>400 - 80 - height\<close>; the player is on the ground exactly when \<open>y\<close>
  equals the clamp, and then the velocity is 0.
\<close>

theorem gameLoop_player_ground_clamp:
  assumes "isPlaying (gameState a)" "\<not> isGameOver (gameState a)" "gameLoop a i = Some a'"
  shows "y (player a') \<le> fsub (fsub 400 80) (height (player a')) \<and>
         height (player a') = height (player a) \<and>
         (onGround (player a') \<longrightarrow>
            velocityY (player a') = 0 \<and> y (player a') = fsub (fsub 400 80) (height (player a'))) \<and>
         (onGround (player a') \<longleftrightarrow> y (player a') = fsub (fsub 400 80) (height (player a')))"
proof -
  let ?p = "gameLoop_setPlayer (fadd (animationFrameRef a) 1) (player a)"
  have p: "player a' = ?p"
    using assms by (rule gameLoop_playing)
  have g: "groundY (player a) = fsub (fsub 400 80) (height ?p)"
    by (simp add: groundY_def const_defs gameLoop_setPlayer_clamp(4))
  show ?thesis
    unfolding p using gameLoop_setPlayer_clamp [of "fadd (animationFrameRef a) 1" "player a"]
    unfolding g by blast
qed

theorem gameLoop_player_ground_clamp_witness:
  "isPlaying (gameState startedApp) \<and> \<not> isGameOver (gameState startedApp) \<and>
   gameLoop startedApp sampleInput = Some tickedApp \<and>
   onGround (player tickedApp) \<and> velocityY (player tickedApp) = 0 \<and>
   y (player tickedApp) = 280 \<and> fsub (fsub 400 80) (height (player tickedApp)) = 280"
proof -
  have h: "isPlaying (gameState startedApp)" "\<not> isGameOver (gameState startedApp)"
    "gameLoop startedApp sampleInput = Some tickedApp"
    by (simp_all add: tickedApp_value gameLoop_startedApp) (simp_all add: startedApp_def startGame_def)
  have "onGround (player tickedApp)" "height (player tickedApp) = 40"
    by (simp_all add: tickedApp_value initialPlayer_value)
  moreover have "fsub (fsub 400 80) 40 = 280"
    by (simp add: float_eval)
  ultimately show ?thesis
    using h gameLoop_player_ground_clamp [OF h] by simp
qed
section \<open>Moving and dropping obstacles\<close>

text \<open>
  C3. A tick run while playing maps every obstacle to itself with \<open>x\<close> lowered by the
  speed of the state the tick starts from, all other fields as they were, and keeps
  exactly the moved obstacles for which \<open>x + width \<le> 0\<close> is false, in their order; a
  newly generated obstacle, if any, follows them.
\<close>

theorem gameLoop_obstacles_shift_and_drop:
  assumes "isPlaying (gameState a)" "\<not> isGameOver (gameState a)" "gameLoop a i = Some a'"
  shows "\<exists>spawned.
           obstacles a' =
             filter (\<lambda>ob. \<not> fadd (x ob) (width ob) \<le> 0)
               (map (\<lambda>ob. ob\<lparr>x := fsub (x ob) (speed (gameState a))\<rparr>) (obstacles a)) @ spawned \<and>
           (spawned = [] \<or> generateObstacle (rndType i) = Some (hd spawned) \<and> length spawned = 1)"
proof -
  let ?kept = "filter onScreen (map (moveObstacle (speed (gameState a))) (obstacles a))"
  have k: "?kept = filter (\<lambda>ob. \<not> fadd (x ob) (width ob) \<le> 0)
      (map (\<lambda>ob. ob\<lparr>x := fsub (x ob) (speed (gameState a))\<rparr>) (obstacles a))"
  proof -
    have "moveObstacle (speed (gameState a)) =
        (\<lambda>ob. ob\<lparr>x := fsub (x ob) (speed (gameState a))\<rparr>)"
      by (rule ext) (simp add: moveObstacle_def)
    moreover have "onScreen = (\<lambda>ob. \<not> fadd (x ob) (width ob) \<le> 0)"
      by (rule ext) (simp add: onScreen_def not_le)
    ultimately show ?thesis
      by simp
  qed
  have "gameLoop_setObstacles (speed (gameState a)) (lastObstacleRef a) i (obstacles a) =
      Some (obstacles a', lastObstacleRef a')"
    using assms by (rule gameLoop_playing)
  then have "obstacles a' = ?kept \<or>
      (\<exists>ob. generateObstacle (rndType i) = Some ob \<and> obstacles a' = ?kept @ [ob])"
    by (auto simp add: gameLoop_setObstacles_def Let_def split: if_splits option.splits)
  then show ?thesis
  proof
    assume "obstacles a' = ?kept"
    then have "obstacles a' = ?kept @ [] \<and> ([] = [] \<or>
        generateObstacle (rndType i) = Some (hd []) \<and> length ([]::Obstacle list) = 1)"
      by simp
    then show ?thesis
      unfolding k by blast
  next
    assume "\<exists>ob. generateObstacle (rndType i) = Some ob \<and> obstacles a' = ?kept @ [ob]"
    then obtain ob where "generateObstacle (rndType i) = Some ob" "obstacles a' = ?kept @ [ob]"
      by blast
    then have "obstacles a' = ?kept @ [ob] \<and> ([ob] = [] \<or>
        generateObstacle (rndType i) = Some (hd [ob]) \<and> length [ob] = 1)"
      by simp
    then show ?thesis
      unfolding k by blast
  qed
qed

lemma gameLoop_crowdedApp:
  "gameLoop crowdedApp sampleInput =
     Some (crowdedApp\<lparr>groundOffsetRef := - 4, animationFrameRef := 1,
       player := initialPlayer\<lparr>animFrame := 1\<rparr>,
       obstacles := [rockAhead\<lparr>x := 96\<rparr>],
       gameState := \<lparr>isPlaying = True, isGameOver = False, score = 1,
         speed = 4505851427184181 / 1125899906842624\<rparr>\<rparr>)"
proof -
  have "fadd 0 1 = 1" "fsub 0 4 = - 4"
    by (simp_all add: float_eval)
  moreover have "gameLoop_setObstacles 4 0 sampleInput [spikeLeaving, rockAhead] =
      Some ([rockAhead\<lparr>x := 96\<rparr>], 0)"
    by (simp add: gameLoop_setObstacles_def spawnDue_def interval_sample sampleInput_def
        moveObstacle_def onScreen_def spikeLeaving_def rockAhead_def float_eval)
  ultimately show ?thesis
    by (simp add: gameLoop_def crowdedApp_def startedApp_def startGame_def initialApp_def
        INITIAL_SPEED_def setPlayer_sample setGameState_sample)
qed

theorem gameLoop_obstacles_shift_and_drop_witness:
  "isPlaying (gameState crowdedApp) \<and> \<not> isGameOver (gameState crowdedApp) \<and>
   obstacles crowdedApp = [spikeLeaving, rockAhead] \<and> speed (gameState crowdedApp) = 4 \<and>
   (\<exists>a'. gameLoop crowdedApp sampleInput = Some a' \<and> obstacles a' = [rockAhead\<lparr>x := 96\<rparr>] \<and>
     (\<exists>spawned. obstacles a' =
        filter (\<lambda>ob. \<not> fadd (x ob) (width ob) \<le> 0)
          (map (\<lambda>ob. ob\<lparr>x := fsub (x ob) 4\<rparr>) [spikeLeaving, rockAhead]) @ spawned))"
proof -
  have h: "isPlaying (gameState crowdedApp)" "\<not> isGameOver (gameState crowdedApp)"
    and o: "obstacles crowdedApp = [spikeLeaving, rockAhead]" "speed (gameState crowdedApp) = 4"
    by (simp_all add: crowdedApp_def startedApp_def startGame_def INITIAL_SPEED_def)
  from gameLoop_obstacles_shift_and_drop [OF h gameLoop_crowdedApp]
  show ?thesis
    using h o gameLoop_crowdedApp by (simp del: filter.simps list.map) blast
qed

section \<open>Runs of frames\<close>

lemma frames_game_over: "isGameOver (gameState a) \<Longrightarrow> frames a is = Some a"
  by (induction "is") (simp_all add: gameLoop_def collisionEffect_def)

lemma frames_append:
  "frames a (xs @ ys) = (case frames a xs of None \<Rightarrow> None | Some b \<Rightarrow> frames b ys)"
  by (induction xs arbitrary: a) (simp_all split: option.splits)

lemma collisionEffect_cases:
  "collisionEffect a = a \<or> collisionEffect a = a\<lparr>gameState := (gameState a)\<lparr>isGameOver := True\<rparr>\<rparr>"
  by (simp add: collisionEffect_def collisionLoop_cases)

lemma grounded_setPlayer: "grounded p \<Longrightarrow> grounded (gameLoop_setPlayer frame p)"
  by (simp add: grounded_def gameLoop_setPlayer_def groundY_def const_defs GRAVITY_value
      float_eval Let_def)

lemma frames_without_collision:
  assumes "frames a is = Some a'" "isPlaying (gameState a)" "\<not> isGameOver (gameState a')"
    "grounded (player a)"
  shows "gameState a' = (gameLoop_setGameState ^^ length is) (gameState a) \<and> grounded (player a')"
  using assms
proof (induction "is" arbitrary: a)
  case Nil
  then show ?case by simp
next
  case (Cons i "is")
  have live: "\<not> isGameOver (gameState a)"
    using Cons.prems(1,3) frames_game_over [of a "i # is"] by auto
  obtain a1 where a1: "gameLoop a i = Some a1" and rest: "frames (collisionEffect a1) is = Some a'"
    using Cons.prems(1) by (auto split: option.splits)
  have g1: "gameState a1 = gameLoop_setGameState (gameState a)"
    and p1: "player a1 = gameLoop_setPlayer (fadd (animationFrameRef a) 1) (player a)"
    using Cons.prems(2) live a1 by (rule gameLoop_playing)+
  have "\<not> isGameOver (gameState (collisionEffect a1))"
    using rest Cons.prems(3) frames_game_over [of "collisionEffect a1" "is"] by auto
  then have same: "collisionEffect a1 = a1"
    using collisionEffect_cases [of a1] by auto
  have "isPlaying (gameState a1)"
    using Cons.prems(2) by (simp add: g1 gameLoop_setGameState_def)
  moreover have "grounded (player a1)"
    using Cons.prems(4) by (simp add: p1 grounded_setPlayer)
  ultimately have "gameState a' = (gameLoop_setGameState ^^ length is) (gameState a1) \<and>
      grounded (player a')"
    using Cons.IH [of a1] rest Cons.prems(3) by (simp add: same)
  then show ?case
    by (simp add: g1 funpow_swap1)
qed

lemma gameLoop_setGameState_funpow:
  "(gameLoop_setGameState ^^ n) gs =
     gs\<lparr>score := ((\<lambda>s. fadd s 1) ^^ n) (score gs),
        speed := ((\<lambda>v. min (fadd v SPEED_INCREMENT) 12) ^^ n) (speed gs)\<rparr>"
  by (induction n) (simp_all add: gameLoop_setGameState_def)

lemma funpow_numeral_eval:
  "(f ^^ 1) v = f v"
  "(f ^^ numeral (Num.Bit0 k)) v = (f ^^ numeral k) ((f ^^ numeral k) v)"
  "(f ^^ numeral (Num.Bit1 k)) v = f ((f ^^ numeral k) ((f ^^ numeral k) v))"
proof -
  show "(f ^^ 1) v = f v"
    by simp
  have "(f ^^ (numeral k + numeral k)) v = (f ^^ numeral k) ((f ^^ numeral k) v)"
    by (simp only: funpow_add o_apply)
  then show "(f ^^ numeral (Num.Bit0 k)) v = (f ^^ numeral k) ((f ^^ numeral k) v)"
    by (simp only: numeral_Bit0)
  have "(f ^^ Suc (numeral k + numeral k)) v = f ((f ^^ numeral k) ((f ^^ numeral k) v))"
    by (simp only: funpow.simps funpow_add o_apply)
  then show "(f ^^ numeral (Num.Bit1 k)) v = f ((f ^^ numeral k) ((f ^^ numeral k) v))"
    by (simp only: numeral_Bit1 Suc_eq_plus1 add.assoc)
qed

lemma score_after_200: "((\<lambda>s. fadd s 1) ^^ 200) 0 = 200"
  by (simp add: funpow_numeral_eval float_eval)

lemma speed_after_200:
  "((\<lambda>v. min (fadd v SPEED_INCREMENT) 12) ^^ 200) 4 = 619244948763437 / 140737488355328"
  by (simp add: funpow_numeral_eval SPEED_INCREMENT_value float_eval)

lemma gameState_after_200:
  "(gameLoop_setGameState ^^ 200) (gameState (startGame a0 t)) =
     \<lparr>isPlaying = True, isGameOver = False, score = 200,
      speed = 619244948763437 / 140737488355328\<rparr>"
  by (simp only: gameLoop_setGameState_funpow)
    (simp add: startGame_def INITIAL_SPEED_def score_after_200 speed_after_200)

section \<open>Frames in which nothing is spawned\<close>

lemma interval_nonneg: "0 \<le> rnd \<Longrightarrow> 0 \<le> interval spd rnd"
proof -
  assume r: "0 \<le> rnd"
  have "(0::real) < fround (3 / 10)"
    by (simp add: float_eval)
  then have "0 \<le> speedMultiplier spd"
    by (simp add: speedMultiplier_def max_def)
  then have "0 \<le> fmul 800 (speedMultiplier spd)" "0 \<le> fmul rnd 400"
    using r by (simp_all add: fmul_def fround_nonneg)
  then show ?thesis
    by (simp add: interval_def fadd_def fround_nonneg)
qed

lemma gameLoop_quiet:
  assumes "isPlaying (gameState a)" "\<not> isGameOver (gameState a)"
    "obstacles a = []" "lastObstacleRef a = 0"
  shows "\<exists>a'. gameLoop a \<lparr>now = 0, rndInterval = 1 / 2, rndType = 1 / 4\<rparr> = Some a' \<and>
           collisionEffect a' = a' \<and> isPlaying (gameState a') \<and> \<not> isGameOver (gameState a') \<and>
           obstacles a' = [] \<and> lastObstacleRef a' = 0"
proof -
  have "0 \<le> interval (speed (gameState a)) (1 / 2)"
    by (rule interval_nonneg) simp
  moreover have "fsub 0 0 = 0"
    by (simp add: float_eval)
  ultimately have "\<not> spawnDue (speed (gameState a)) 0 \<lparr>now = 0, rndInterval = 1 / 2, rndType = 1 / 4\<rparr>"
    by (simp add: spawnDue_def)
  then show ?thesis
    using assms
    by (simp add: gameLoop_def gameLoop_setObstacles_def gameLoop_setGameState_def Let_def
        collisionEffect_def)
qed

lemma frames_quiet:
  assumes "isPlaying (gameState a)" "\<not> isGameOver (gameState a)"
    "obstacles a = []" "lastObstacleRef a = 0"
  shows "\<exists>a'. frames a (replicate n \<lparr>now = 0, rndInterval = 1 / 2, rndType = 1 / 4\<rparr>) = Some a' \<and>
           \<not> isGameOver (gameState a')"
  using assms
proof (induction n arbitrary: a)
  case 0
  then show ?case by simp
next
  case (Suc n)
  from gameLoop_quiet [OF Suc.prems] obtain a1
    where "gameLoop a \<lparr>now = 0, rndInterval = 1 / 2, rndType = 1 / 4\<rparr> = Some a1"
      "collisionEffect a1 = a1" "isPlaying (gameState a1)" "\<not> isGameOver (gameState a1)"
      "obstacles a1 = []" "lastObstacleRef a1 = 0"
    by blast
  then show ?case
    using Suc.IH [of a1] by simp
qed

section \<open>Two hundred ticks without a jump\<close>

text \<open>
  C7, as amended. Start a game and run 200 frames, on any inputs, without a jump and
  without a collision ending the round. Then the player is on the ground after every
  frame, the score is 200 and is displayed as 20, and the speed is the double reached by
  adding 0.002 to 4 two hundred times, each sum rounded: \<open>619244948763437 / 2^47\<close>, which
  prints as 4.399999999999956. It differs from 4.4 by less than \<open>10^-13\<close>.
\<close>

theorem two_hundred_ticks_without_jump:
  assumes "length is = 200" "frames (startGame a0 t) is = Some a'"
    "\<not> isGameOver (gameState a')"
  shows "score (gameState a') = 200 \<and> displayedScore (gameState a') = 20 \<and>
         speed (gameState a') = 619244948763437 / 2 ^ 47 \<and>
         \<bar>speed (gameState a') - 44 / 10\<bar> < 1 / 10 ^ 13 \<and>
         (\<forall>k \<le> 200. \<exists>b. frames (startGame a0 t) (take k is) = Some b \<and> onGround (player b))"
proof -
  have start: "isPlaying (gameState (startGame a0 t))" "grounded (player (startGame a0 t))"
    by (simp_all add: startGame_def grounded_def initialPlayer_value)
  have "gameState a' = (gameLoop_setGameState ^^ 200) (gameState (startGame a0 t))"
    using frames_without_collision [OF assms(2) start(1) assms(3) start(2)] assms(1) by simp
  then have gs: "gameState a' = \<lparr>isPlaying = True, isGameOver = False, score = 200,
      speed = 619244948763437 / 140737488355328\<rparr>"
    by (simp only: gameState_after_200)
  have "\<lfloor>fdiv 200 10\<rfloor> = 20"
    by (simp add: float_eval)
  then have shown: "displayedScore (gameState a') = 20"
    by (simp add: displayedScore_def gs)
  have every: "\<exists>b. frames (startGame a0 t) (take k is) = Some b \<and> onGround (player b)" for k
  proof -
    have "(case frames (startGame a0 t) (take k is) of None \<Rightarrow> None
        | Some b \<Rightarrow> frames b (drop k is)) = Some a'"
      using assms(2) frames_append [of "startGame a0 t" "take k is" "drop k is"] by simp
    then obtain b where b: "frames (startGame a0 t) (take k is) = Some b"
      and rest: "frames b (drop k is) = Some a'"
      by (auto split: option.splits)
    have "\<not> isGameOver (gameState b)"
      using rest assms(3) frames_game_over [of b "drop k is"] by auto
    then have "grounded (player b)"
      using frames_without_collision [OF b start(1) _ start(2)] by simp
    then show ?thesis
      using b by (simp add: grounded_def)
  qed
  show ?thesis
    using shown every by (simp add: gs)
qed

theorem two_hundred_ticks_without_jump_witness:
  "length quietFrames = 200 \<and>
   (\<exists>a'. frames (startGame initialApp 0) quietFrames = Some a' \<and>
      \<not> isGameOver (gameState a') \<and> score (gameState a') = 200 \<and>
      displayedScore (gameState a') = 20 \<and> onGround (player a') \<and>
      speed (gameState a') = 619244948763437 / 2 ^ 47)"
proof -
  have len: "length quietFrames = 200"
    by (simp add: quietFrames_def)
  have "\<exists>a'. frames (startGame initialApp 0) quietFrames = Some a' \<and> \<not> isGameOver (gameState a')"
    unfolding quietFrames_def by (rule frames_quiet) (simp_all add: startGame_def)
  then obtain a' where run: "frames (startGame initialApp 0) quietFrames = Some a'"
    and live: "\<not> isGameOver (gameState a')"
    by blast
  note t = two_hundred_ticks_without_jump [OF len run live]
  from t have "\<exists>b. frames (startGame initialApp 0) (take 200 quietFrames) = Some b \<and>
      onGround (player b)"
    by blast
  then have "onGround (player a')"
    using run len by simp
  with t len run live show ?thesis
    by blast
qed

text \<open>
  Two hundred applications of the \<^verbatim>\<open>setGameState\<close> updater to the state of a started
  game: the speed is neither the real number 4.4 nor the double that the literal
  \<^verbatim>\<open>4.4\<close> denotes.
\<close>

theorem speed_after_200_ticks_counterexample:
  "speed ((gameLoop_setGameState ^^ 200) (gameState (startGame initialApp 0))) \<noteq> 44 / 10 \<and>
   speed ((gameLoop_setGameState ^^ 200) (gameState (startGame initialApp 0))) \<noteq> fround (44 / 10) \<and>
   speed ((gameLoop_setGameState ^^ 200) (gameState (startGame initialApp 0))) \<noteq>
     fadd 4 (fmul 200 (fround (2 / 1000)))"
proof -
  have "fround (44 / 10) = 2476979795053773 / 562949953421312"
    "fadd 4 (fmul 200 (fround (2 / 1000))) = 2476979795053773 / 562949953421312"
    by (simp_all add: float_eval)
  then show ?thesis
    by (simp add: gameState_after_200)
qed

section \<open>The arc of a jump\<close>












section \<open>Score and speed\<close>

lemma fround_small_ints: "fround 0 = 0" "fround 4 = 4" "fround 12 = 12"
  by (simp_all add: float_eval)

lemma SPEED_INCREMENT_pos: "0 < SPEED_INCREMENT"
  by (simp add: SPEED_INCREMENT_value)

lemma fadd_increases:
  assumes "fround s = s" "0 \<le> c"
  shows "s \<le> fadd s c"
proof -
  have "fround s \<le> fround (s + c)"
    using assms(2) by (intro fround_mono) simp
  then show ?thesis
    by (simp add: fadd_def assms(1))
qed

lemma reachable_doubles:
  "reachable a \<Longrightarrow>
     fround (score (gameState a)) = score (gameState a) \<and>
     fround (speed (gameState a)) = speed (gameState a) \<and>
     speed (gameState a) \<le> 12"
proof (induction rule: reachable.induct)
  case mounted
  then show ?case
    by (simp add: initialApp_def INITIAL_SPEED_def fround_small_ints)
next
  case (started a t)
  then show ?case
    by (simp add: startGame_def INITIAL_SPEED_def fround_small_ints)
next
  case (jumped a)
  then show ?case
    by (simp add: jump_def)
next
  case (ticked a i a')
  show ?case
  proof (cases "isPlaying (gameState a) \<and> \<not> isGameOver (gameState a)")
    case True
    then have "gameState a' = gameLoop_setGameState (gameState a)"
      using ticked.hyps(2) gameLoop_playing(2) by blast
    then show ?thesis
      by (simp add: gameLoop_setGameState_def fadd_def fround_idem min_def fround_small_ints)
  next
    case False
    then have "a' = a"
      using ticked.hyps(2) by (auto simp add: gameLoop_def)
    then show ?thesis
      using ticked.IH by simp
  qed
next
  case (collided a)
  then show ?case
    using collisionEffect_cases [of a] by auto
qed

lemma fround_of_int_pos:
  assumes "0 < n" "n < 2 ^ 53"
  shows "fround (of_int n) = of_int n"
proof -
  let ?j = "ilog2 (of_int n)"
  let ?k = "nat (52 - ?j)"
  let ?m = "n * 2 ^ ?k"
  have n1: "1 \<le> real_of_int n" and n53: "real_of_int n < 2 ^ 53"
    using assms by (simp_all add: of_int_less_numeral_power_cancel_iff)
  have lo: "pow2 ?j \<le> of_int n" and hi: "real_of_int n < pow2 (?j + 1)"
    using ilog2_bounds [of "real_of_int n"] assms(1) by simp_all
  have j0: "0 \<le> ?j"
  proof (rule ccontr)
    assume "\<not> 0 \<le> ?j"
    then have "pow2 (?j + 1) \<le> pow2 0"
      by (intro pow2_mono) linarith
    then show False
      using hi n1 by (simp add: pow2_def)
  qed
  have j52: "?j \<le> 52"
  proof (rule ccontr)
    assume "\<not> ?j \<le> 52"
    then have "pow2 53 \<le> pow2 ?j"
      by (intro pow2_mono) linarith
    then show False
      using lo n53 by (simp add: pow2_52_53)
  qed
  have k: "pow2 (52 - ?j) = 2 ^ ?k"
    using j52 by (simp add: pow2_nat)
  have m: "real_of_int ?m = of_int n * pow2 (52 - ?j)"
    by (simp add: k)
  have "pow2 52 = pow2 ?j * pow2 (52 - ?j)"
    using pow2_add [of ?j "52 - ?j"] by simp
  also have "\<dots> \<le> of_int n * pow2 (52 - ?j)"
    using lo pow2_pos [of "52 - ?j"] by (simp add: mult_right_mono)
  finally have "real_of_int (2 ^ 52) \<le> of_int ?m"
    by (simp only: m pow2_52_53) simp
  then have m52: "2 ^ 52 \<le> ?m"
    by (simp only: of_int_le_iff)
  have "of_int n * pow2 (52 - ?j) < pow2 (?j + 1) * pow2 (52 - ?j)"
    using hi pow2_pos [of "52 - ?j"] by (simp add: mult_strict_right_mono)
  also have "\<dots> = pow2 53"
    using pow2_add [of "?j + 1" "52 - ?j"] by simp
  finally have "real_of_int ?m < of_int (2 ^ 53)"
    by (simp only: m pow2_52_53) simp
  then have m53: "?m < 2 ^ 53"
    by (simp only: of_int_less_iff)
  have "pow2 (52 - ?j) * pow2 (?j - 52) = 1"
    using pow2_add [of "52 - ?j" "?j - 52"] by (simp add: pow2_def)
  then have "of_int ?m * pow2 (?j - 52) = of_int n"
    by (simp only: m mult.assoc)
  moreover have "fround (of_int ?m * pow2 (?j - 52)) = of_int ?m * pow2 (?j - 52)"
    using m52 m53 j0 by (intro fround_exact) simp_all
  ultimately show ?thesis
    by (simp only:)
qed

lemma fround_of_int:
  assumes "0 \<le> n" "n \<le> 2 ^ 53"
  shows "fround (of_int n) = of_int n"
proof -
  consider "n = 0" | "0 < n" "n < 2 ^ 53" | "n = 2 ^ 53"
    using assms by linarith
  then show ?thesis
  proof cases
    case 1
    then show ?thesis
      by (simp add: fround_def)
  next
    case 2
    then show ?thesis
      by (rule fround_of_int_pos)
  next
    case 3
    have "fround (of_int (2 ^ 52) * pow2 1) = of_int (2 ^ 52) * pow2 1"
      by (intro fround_exact) simp_all
    moreover have "of_int (2 ^ 52) * pow2 1 = real_of_int n"
      by (simp add: 3 pow2_def)
    ultimately show ?thesis
      by (simp only:)
  qed
qed

lemma fadd_one_of_int:
  assumes "0 \<le> n" "n < 2 ^ 53"
  shows "fadd (of_int n) 1 = of_int n + 1"
proof -
  have "fround (of_int (n + 1)) = of_int (n + 1)"
    using assms by (intro fround_of_int) simp_all
  then show ?thesis
    by (simp add: fadd_def)
qed

lemma reachable_score:
  "reachable a \<Longrightarrow> \<exists>k. 0 \<le> k \<and> k \<le> 2 ^ 53 \<and> score (gameState a) = of_int k"
proof (induction rule: reachable.induct)
  case mounted
  have "0 \<le> (0::int) \<and> (0::int) \<le> 2 ^ 53 \<and> score (gameState initialApp) = of_int 0"
    by (simp add: initialApp_def)
  then show ?case by blast
next
  case (started a t)
  have "0 \<le> (0::int) \<and> (0::int) \<le> 2 ^ 53 \<and> score (gameState (startGame a t)) = of_int 0"
    by (simp add: startGame_def)
  then show ?case by blast
next
  case (jumped a)
  then show ?case
    by (simp add: jump_def)
next
  case (ticked a i a')
  show ?case
  proof (cases "isPlaying (gameState a) \<and> \<not> isGameOver (gameState a)")
    case True
    then have "gameState a' = gameLoop_setGameState (gameState a)"
      using ticked.hyps(2) gameLoop_playing(2) by blast
    then have s: "score (gameState a') = fadd (score (gameState a)) 1"
      by (simp add: gameLoop_setGameState_def)
    obtain k where k: "0 \<le> k" "k \<le> 2 ^ 53" "score (gameState a) = of_int k"
      using ticked.IH by blast
    show ?thesis
    proof (cases "k < 2 ^ 53")
      case True
      then have "0 \<le> k + 1 \<and> k + 1 \<le> 2 ^ 53 \<and> score (gameState a') = of_int (k + 1)"
        using k fadd_one_of_int [of k] by (simp add: s)
      then show ?thesis by blast
    next
      case False
      then have "k = 2 ^ 53"
        using k(2) by linarith
      moreover have "fadd (2 ^ 53) 1 = 2 ^ 53"
        by (simp add: float_eval)
      ultimately have "0 \<le> k \<and> k \<le> 2 ^ 53 \<and> score (gameState a') = of_int k"
        by (simp add: s k(3))
      then show ?thesis by blast
    qed
  next
    case False
    then have "a' = a"
      using ticked.hyps(2) by (auto simp add: gameLoop_def)
    then show ?thesis
      using ticked.IH by simp
  qed
next
  case (collided a)
  then show ?case
    using collisionEffect_cases [of a] by auto
qed

text \<open>
  C4. In every reachable state the speed is at most 12. A tick run while playing replaces
  the score by \<open>score + 1\<close> and the speed by \<open>min (speed + 0.002) 12\<close>, both sums being
  those of the source, rounded to doubles; the sum \<open>score + 1\<close> is exact while the score
  is below \<open>2^53\<close>. Neither the score nor the speed decreases. A tick run while the game
  is over changes nothing.
\<close>

theorem score_and_speed_never_decrease:
  assumes "reachable a"
  shows "speed (gameState a) \<le> 12 \<and>
         (isPlaying (gameState a) \<and> \<not> isGameOver (gameState a) \<and> gameLoop a i = Some a' \<longrightarrow>
            score (gameState a') = fadd (score (gameState a)) 1 \<and>
            (score (gameState a) < 2 ^ 53 \<longrightarrow> score (gameState a') = score (gameState a) + 1) \<and>
            speed (gameState a') = min (fadd (speed (gameState a)) (fround (2 / 1000))) 12 \<and>
            score (gameState a) \<le> score (gameState a') \<and>
            speed (gameState a) \<le> speed (gameState a') \<and>
            speed (gameState a') \<le> 12) \<and>
         (isGameOver (gameState b) \<longrightarrow> gameLoop b j = Some b)"
proof -
  note d = reachable_doubles [OF assms]
  obtain k where k: "0 \<le> k" "score (gameState a) = of_int k"
    using reachable_score [OF assms] by blast
  have exact: "fadd (score (gameState a)) 1 = score (gameState a) + 1"
    if "score (gameState a) < 2 ^ 53"
  proof -
    have "k < 2 ^ 53"
      using that by (simp add: k(2) of_int_less_numeral_power_cancel_iff)
    then show ?thesis
      using k(1) by (simp add: k(2) fadd_one_of_int)
  qed
  have "score (gameState a) \<le> fadd (score (gameState a)) 1"
    using d by (intro fadd_increases) simp_all
  moreover have "speed (gameState a) \<le> fadd (speed (gameState a)) SPEED_INCREMENT"
    using d SPEED_INCREMENT_pos by (intro fadd_increases) simp_all
  ultimately have "isPlaying (gameState a) \<and> \<not> isGameOver (gameState a) \<and> gameLoop a i = Some a' \<longrightarrow>
      score (gameState a') = fadd (score (gameState a)) 1 \<and>
      (score (gameState a) < 2 ^ 53 \<longrightarrow> score (gameState a') = score (gameState a) + 1) \<and>
      speed (gameState a') = min (fadd (speed (gameState a)) (fround (2 / 1000))) 12 \<and>
      score (gameState a) \<le> score (gameState a') \<and>
      speed (gameState a) \<le> speed (gameState a') \<and>
      speed (gameState a') \<le> 12"
    using d exact gameLoop_playing(2) [of a i a']
    by (auto simp add: gameLoop_setGameState_def SPEED_INCREMENT_def)
  then show ?thesis
    using d gameLoop_game_over [of b j] by blast
qed

theorem score_and_speed_never_decrease_witness:
  "reachable startedApp \<and> isPlaying (gameState startedApp) \<and>
   \<not> isGameOver (gameState startedApp) \<and> gameLoop startedApp sampleInput = Some tickedApp \<and>
   score (gameState startedApp) = 0 \<and> score (gameState tickedApp) = 1 \<and>
   speed (gameState startedApp) = 4 \<and> speed (gameState tickedApp) \<le> 12 \<and>
   speed (gameState startedApp) \<le> speed (gameState tickedApp) \<and>
   isGameOver (gameState (collisionEffect crowdedApp)) \<and>
   gameLoop (collisionEffect crowdedApp) sampleInput = Some (collisionEffect crowdedApp)"
proof -
  have r: "reachable startedApp"
    unfolding startedApp_def by (intro reachable.started reachable.mounted)
  have h: "isPlaying (gameState startedApp)" "\<not> isGameOver (gameState startedApp)"
    "gameLoop startedApp sampleInput = Some tickedApp"
    "score (gameState startedApp) = 0" "speed (gameState startedApp) = 4"
    by (simp_all add: tickedApp_value gameLoop_startedApp)
      (simp_all add: startedApp_def startGame_def INITIAL_SPEED_def)
  have "collisionLoop initialPlayer [spikeLeaving, rockAhead]
      \<lparr>isPlaying = True, isGameOver = False, score = 0, speed = 4\<rparr> =
      \<lparr>isPlaying = True, isGameOver = True, score = 0, speed = 4\<rparr>"
    by (simp add: collision_crowdedApp)
  then have o: "isGameOver (gameState (collisionEffect crowdedApp))"
    by (simp add: collisionEffect_def crowdedApp_def startedApp_def startGame_def INITIAL_SPEED_def)
  note t = score_and_speed_never_decrease [OF r, of sampleInput tickedApp
      "collisionEffect crowdedApp" sampleInput]
  from t h(1-3) have m: "speed (gameState tickedApp) \<le> 12"
    "speed (gameState startedApp) \<le> speed (gameState tickedApp)"
    by blast+
  from t o have g: "gameLoop (collisionEffect crowdedApp) sampleInput =
      Some (collisionEffect crowdedApp)"
    by blast
  have s: "score (gameState tickedApp) = 1"
    by (simp add: tickedApp_value)
  from r h o m g s show ?thesis
    by blast
qed

section \<open>Spawning obstacles\<close>

lemma speedMultiplier_antimono:
  assumes "s1 \<le> s2"
  shows "speedMultiplier s2 \<le> speedMultiplier s1"
proof -
  have c: "0 \<le> fround (1 / 10)"
    by (rule fround_nonneg) simp
  have "fsub s1 INITIAL_SPEED \<le> fsub s2 INITIAL_SPEED"
    unfolding fsub_def using assms by (intro fround_mono) simp
  then have "fsub s1 INITIAL_SPEED * fround (1 / 10) \<le> fsub s2 INITIAL_SPEED * fround (1 / 10)"
    using c by (rule mult_right_mono)
  then have "fmul (fsub s1 INITIAL_SPEED) (fround (1 / 10))
      \<le> fmul (fsub s2 INITIAL_SPEED) (fround (1 / 10))"
    unfolding fmul_def by (rule fround_mono)
  then have "fsub 1 (fmul (fsub s2 INITIAL_SPEED) (fround (1 / 10)))
      \<le> fsub 1 (fmul (fsub s1 INITIAL_SPEED) (fround (1 / 10)))"
    unfolding fsub_def by (intro fround_mono) simp
  then show ?thesis
    unfolding speedMultiplier_def by (rule max.mono [OF order_refl])
qed

lemma random_scaled:
  assumes "fround r = r" "0 \<le> r" "r < 1"
  shows "0 \<le> fmul r 400" "fmul r 400 < 400" "0 \<le> fmul r 6" "fmul r 6 < 6"
proof -
  have r: "r \<le> 1 - 1 / 2 ^ 53"
    using assms(1,3) by (rule double_below_one)
  show "0 \<le> fmul r 400" "0 \<le> fmul r 6"
    unfolding fmul_def using assms(2) by (simp_all add: fround_nonneg)
  have "fround (r * 400) \<le> fround ((1 - 1 / 2 ^ 53) * 400)"
    using r by (intro fround_mono) simp
  moreover have "fround ((1 - 1 / 2 ^ 53) * 400) < 400"
    by (simp add: float_eval)
  ultimately show "fmul r 400 < 400"
    unfolding fmul_def by linarith
  have "fround (r * 6) \<le> fround ((1 - 1 / 2 ^ 53) * 6)"
    using r by (intro fround_mono) simp
  moreover have "fround ((1 - 1 / 2 ^ 53) * 6) < 6"
    by (simp add: float_eval)
  ultimately show "fmul r 6 < 6"
    unfolding fmul_def by linarith
qed

lemma preset_rests_on_ground:
  assumes "(t, w, h) \<in> set types"
  shows "fadd (fsub (fsub CANVAS_HEIGHT GROUND_HEIGHT) h) h = fsub 400 80"
proof -
  have "h = 48 \<or> h = 24 \<or> h = 16 \<or> h = 56 \<or> h = 40 \<or> h = 32"
    using assms by (auto simp add: types_def)
  then show ?thesis
    by (elim disjE) (simp_all add: const_defs float_eval)
qed

lemma index_mem:
  assumes "index xs k = Some e"
  shows "e \<in> set xs"
proof -
  have k: "0 \<le> k" "k < int (length xs)" and e: "e = xs ! nat k"
    using assms by (auto simp add: index_def split: if_splits)
  from k have "nat k < length xs"
    by linarith
  then show ?thesis
    unfolding e by (rule nth_mem)
qed

lemma generateObstacle_preset:
  assumes "generateObstacle r = Some ob"
  shows "(type ob, width ob, height ob) \<in> set types" "x ob = 800"
    "fadd (y ob) (height ob) = fsub 400 80"
proof -
  obtain t w h where i: "index types \<lfloor>fmul r (of_nat (length types))\<rfloor> = Some (t, w, h)"
    and ob: "ob = \<lparr>x = CANVAS_WIDTH, y = fsub (fsub CANVAS_HEIGHT GROUND_HEIGHT) h,
      width = w, height = h, type = t\<rparr>"
    using assms by (auto simp add: generateObstacle_def split: option.splits)
  from i have m: "(t, w, h) \<in> set types"
    by (rule index_mem)
  then show "(type ob, width ob, height ob) \<in> set types"
    by (simp add: ob)
  show "x ob = 800"
    by (simp add: ob CANVAS_WIDTH_def)
  show "fadd (y ob) (height ob) = fsub 400 80"
    using preset_rests_on_ground [OF m] by (simp add: ob)
qed

lemma generateObstacle_total:
  assumes "fround r = r" "0 \<le> r" "r < 1"
  shows "\<exists>ob. generateObstacle r = Some ob"
proof -
  have l: "real (length types) = 6" "int (length types) = 6"
    by (simp_all add: types_def)
  have "0 \<le> \<lfloor>fmul r 6\<rfloor>" "\<lfloor>fmul r 6\<rfloor> < 6"
    using random_scaled(3,4) [OF assms] by (simp_all add: floor_less_iff)
  then have "index types \<lfloor>fmul r (of_nat (length types))\<rfloor> \<noteq> None"
    by (simp add: index_def l)
  then show ?thesis
    by (auto simp add: generateObstacle_def split: option.splits prod.splits)
qed

text \<open>
  C9. With the clock and the random draws as inputs, a tick run while playing appends a
  new obstacle, and records the time, exactly when the time since the last spawn exceeds
  \<open>800 * max 0.3 (1 - (speed - 4) * 0.1) + rndInterval * 400\<close>, computed in doubles. The
  factor does not increase with the speed and is never below 0.3. For a draw that is a
  double in \<open>[0, 1)\<close> the jitter lies in \<open>[0, 400)\<close> and the obstacle is generated. A
  generated obstacle has the type, width and height of one of the six presets, \<open>x\<close> equal
  to 800, and \<open>y + height\<close> equal to the ground line \<open>400 - 80\<close>.
\<close>

theorem spawn_when_interval_elapsed:
  assumes "isPlaying (gameState a)" "\<not> isGameOver (gameState a)" "gameLoop a i = Some a'"
  shows "(if fadd (fmul 800 (max (fround (3 / 10))
                 (fsub 1 (fmul (fsub (speed (gameState a)) 4) (fround (1 / 10))))))
               (fmul (rndInterval i) 400)
             < fsub (now i) (lastObstacleRef a)
          then (\<exists>ob. generateObstacle (rndType i) = Some ob \<and>
                  obstacles a' =
                    filter onScreen (map (moveObstacle (speed (gameState a))) (obstacles a)) @ [ob]) \<and>
               lastObstacleRef a' = now i
          else obstacles a' =
                 filter onScreen (map (moveObstacle (speed (gameState a))) (obstacles a)) \<and>
               lastObstacleRef a' = lastObstacleRef a) \<and>
         (s1 \<le> s2 \<longrightarrow> speedMultiplier s2 \<le> speedMultiplier s1) \<and>
         fround (3 / 10) \<le> speedMultiplier s1 \<and>
         (fround r = r \<and> 0 \<le> r \<and> r < 1 \<longrightarrow>
            0 \<le> fmul r 400 \<and> fmul r 400 < 400 \<and> (\<exists>ob. generateObstacle r = Some ob)) \<and>
         length types = 6 \<and>
         (generateObstacle r' = Some ob' \<longrightarrow>
            (type ob', width ob', height ob') \<in> set types \<and> x ob' = 800 \<and>
            fadd (y ob') (height ob') = fsub 400 80)"
proof -
  have "gameLoop_setObstacles (speed (gameState a)) (lastObstacleRef a) i (obstacles a) =
      Some (obstacles a', lastObstacleRef a')"
    using assms by (rule gameLoop_playing)
  then have spawn: "if fadd (fmul 800 (max (fround (3 / 10))
                 (fsub 1 (fmul (fsub (speed (gameState a)) 4) (fround (1 / 10))))))
               (fmul (rndInterval i) 400)
             < fsub (now i) (lastObstacleRef a)
          then (\<exists>ob. generateObstacle (rndType i) = Some ob \<and>
                  obstacles a' =
                    filter onScreen (map (moveObstacle (speed (gameState a))) (obstacles a)) @ [ob]) \<and>
               lastObstacleRef a' = now i
          else obstacles a' =
                 filter onScreen (map (moveObstacle (speed (gameState a))) (obstacles a)) \<and>
               lastObstacleRef a' = lastObstacleRef a"
    by (auto simp add: gameLoop_setObstacles_def spawnDue_def interval_def speedMultiplier_def
        INITIAL_SPEED_def Let_def split: if_splits option.splits)
  have floor: "fround (3 / 10) \<le> speedMultiplier s1"
    by (simp add: speedMultiplier_def)
  have six: "length types = 6"
    by (simp add: types_def)
  show ?thesis
    using spawn speedMultiplier_antimono [of s1 s2] floor six
      random_scaled(1,2) [of r] generateObstacle_total [of r] generateObstacle_preset [of r' ob']
    by blast
qed

lemma gameLoop_late:
  "gameLoop startedApp lateInput =
     Some (startedApp\<lparr>groundOffsetRef := - 4, animationFrameRef := 1,
       player := initialPlayer\<lparr>animFrame := 1\<rparr>,
       obstacles := [\<lparr>x = 800, y = 296, width = 24, height = 24, type = rock\<rparr>],
       lastObstacleRef := 2000,
       gameState := \<lparr>isPlaying = True, isGameOver = False, score = 1,
         speed = 4505851427184181 / 1125899906842624\<rparr>\<rparr>)"
proof -
  have "fadd 0 1 = 1" "fsub 0 4 = - 4"
    by (simp_all add: float_eval)
  moreover have "generateObstacle (1 / 4) =
      Some \<lparr>x = 800, y = 296, width = 24, height = 24, type = rock\<rparr>"
    by (simp add: generateObstacle_def index_def types_def const_defs float_eval)
  moreover have "fsub 2000 0 = 2000"
    by (simp add: float_eval)
  ultimately have "gameLoop_setObstacles 4 0 lateInput [] =
      Some ([\<lparr>x = 800, y = 296, width = 24, height = 24, type = rock\<rparr>], 2000)"
    by (simp add: gameLoop_setObstacles_def spawnDue_def interval_sample lateInput_def)
  then show ?thesis
    using \<open>fadd 0 1 = 1\<close> \<open>fsub 0 4 = - 4\<close>
    by (simp add: gameLoop_def startedApp_def startGame_def initialApp_def
        INITIAL_SPEED_def setPlayer_sample setGameState_sample)
qed

theorem spawn_when_interval_elapsed_witness:
  "isPlaying (gameState startedApp) \<and> \<not> isGameOver (gameState startedApp) \<and>
   (\<exists>a'. gameLoop startedApp lateInput = Some a' \<and>
      obstacles a' = [\<lparr>x = 800, y = 296, width = 24, height = 24, type = rock\<rparr>] \<and>
      lastObstacleRef a' = 2000) \<and>
   (4::real) \<le> 5 \<and> speedMultiplier 5 \<le> speedMultiplier 4 \<and>
   fround (1 / 4) = 1 / 4 \<and> fmul (1 / 4) 400 < 400 \<and>
   generateObstacle (1 / 4) = Some \<lparr>x = 800, y = 296, width = 24, height = 24, type = rock\<rparr> \<and>
   fadd 296 24 = fsub 400 80"
proof -
  have h: "isPlaying (gameState startedApp)" "\<not> isGameOver (gameState startedApp)"
    by (simp_all add: startedApp_def startGame_def)
  have g: "generateObstacle (1 / 4) =
      Some \<lparr>x = 800, y = 296, width = 24, height = 24, type = rock\<rparr>"
    by (simp add: generateObstacle_def index_def types_def const_defs float_eval)
  have d: "fround (1 / 4) = 1 / 4"
    by (simp add: float_eval)
  note t = spawn_when_interval_elapsed [OF h gameLoop_late, of 4 5 "1 / 4" "1 / 4"
      "\<lparr>x = 800, y = 296, width = 24, height = 24, type = rock\<rparr>"]
  from t have m: "speedMultiplier 5 \<le> speedMultiplier 4"
    by simp
  from t d have j: "fmul (1 / 4) 400 < 400"
    by simp
  from t g have p: "fadd 296 24 = fsub 400 80"
    by simp
  have e: "\<exists>a'. gameLoop startedApp lateInput = Some a' \<and>
      obstacles a' = [\<lparr>x = 800, y = 296, width = 24, height = 24, type = rock\<rparr>] \<and>
      lastObstacleRef a' = 2000"
    by (simp add: gameLoop_late)
  from h e m d j g p show ?thesis
    by simp
qed

end
